theory Spec2Isabelle
  imports Complex_Main
begin

section \<open>Due-date reminders of ChronoTask Pro (src/src/App.jsx)\<close>

text \<open>
  The development embeds the reminder engine of \<^verbatim>\<open>useEnhancedNotifications\<close>
  (App.jsx, lines 288-354) together with \<^verbatim>\<open>showNotification\<close> of
  \<^verbatim>\<open>useIOSNotifications\<close> (lines 264-282) and the table
  \<^verbatim>\<open>NOTIFICATION_LEVELS\<close> (lines 13-19).

  Instants are integer milliseconds since the epoch, as \<^verbatim>\<open>Date\<close> values are.
  The numbers \<^verbatim>\<open>level.hours\<close> are rationals here; on the five constants of the
  table the double arithmetic of the source (\<^verbatim>\<open>hours * 60\<close>, \<^verbatim>\<open>- 1\<close>) is exact,
  in particular \<^verbatim>\<open>10 / 60 * 60\<close> is the double 10.
\<close>

subsection \<open>Data\<close>

text \<open>
  One entry of \<^verbatim>\<open>NOTIFICATION_LEVELS\<close>. The field \<open>hours_text\<close> is the text that
  the template literal \<^verbatim>\<open>${level.hours}\<close> produces for the number \<open>hours\<close>.
\<close>

record level =
  hours :: rat
  hours_text :: string
  label :: string
  color :: string

definition NOTIFICATION_LEVELS :: "level list" where
  "NOTIFICATION_LEVELS =
    [\<lparr>hours = 5, hours_text = ''5'', label = ''5 hours'', color = ''text-blue-600''\<rparr>,
     \<lparr>hours = 2, hours_text = ''2'', label = ''2 hours'', color = ''text-indigo-600''\<rparr>,
     \<lparr>hours = 1, hours_text = ''1'', label = ''1 hour'', color = ''text-purple-600''\<rparr>,
     \<lparr>hours = 0.5, hours_text = ''0.5'', label = ''30 minutes'', color = ''text-orange-600''\<rparr>,
     \<lparr>hours = 10 / 60, hours_text = ''0.16666666666666666'', label = ''10 minutes'',
      color = ''text-red-600''\<rparr>]"

text \<open>
  What \<^verbatim>\<open>task.dueUtc\<close> amounts to in \<^verbatim>\<open>checkNotifications\<close>: a falsy value
  (null, undefined, the empty string), a non-empty string that \<^verbatim>\<open>new Date\<close> cannot
  parse (the date is then NaN), or an instant.
\<close>

datatype dueUtc_value = Absent | Unparseable | DueAt int

record task =
  task_id :: string
  title :: string
  clientName :: "string option"
  dueUtc :: dueUtc_value
  completed :: bool

datatype permission = Default | Granted | Denied

text \<open>
  A notification handed to the platform. The body of the source is the text
  \<^verbatim>\<open>Due: <due date shown for Asia/Dhaka>\nClient: <client>\<close>; the record keeps the
  instant and the client text that it is rendered from. \<open>silent\<close> and \<open>vibrate\<close> are
  set on iOS only.
\<close>

record notification =
  n_title :: string
  n_body_due :: int
  n_body_client :: string
  n_icon :: string
  n_badge :: string
  n_tag :: string
  n_requireInteraction :: bool
  n_data_taskId :: string
  n_data_type :: string
  n_data_level :: string
  n_silent :: "bool option"
  n_vibrate :: "nat list option"

text \<open>
  The state the ticks act on: \<open>notified\<close> is the set \<^verbatim>\<open>notifiedTasksRef.current\<close>,
  \<open>shown\<close> the notifications created so far, oldest first.
\<close>

record notif_state =
  notified :: "string set"
  shown :: "notification list"

subsection \<open>Operations\<close>

definition activeTasks :: "task list \<Rightarrow> task list" where
  "activeTasks tasks = filter (\<lambda>t. \<not> completed t) tasks"

definition notificationKey :: "task \<Rightarrow> level \<Rightarrow> string" where
  "notificationKey t l = ''task-'' @ task_id t @ ''-'' @ hours_text l"

definition thresholdMinutes :: "level \<Rightarrow> rat" where
  "thresholdMinutes l = hours l * 60"

definition minutesLeft :: "int \<Rightarrow> int \<Rightarrow> int" where
  "minutesLeft due now = (due - now) div (1000 * 60)"

text \<open>The alarm-clock sign U+23F0 that starts every title, in UTF-8.\<close>

definition alarm_clock :: string where
  "alarm_clock = [CHR 0xE2, CHR 0x8F, CHR 0xB0]"

text \<open>
  \<^verbatim>\<open>showNotification\<close> of \<^verbatim>\<open>useIOSNotifications\<close>: nothing is created unless the
  permission is granted; the caller's options override the defaults.
\<close>

definition showNotification ::
  "permission \<Rightarrow> bool \<Rightarrow> string \<Rightarrow> int \<Rightarrow> string \<Rightarrow> string \<Rightarrow> string \<Rightarrow> string \<Rightarrow>
   notification list \<Rightarrow> notification list" where
  "showNotification perm isIOS ttl due client tag taskId lvl created =
    (if perm \<noteq> Granted then created
     else created @
       [\<lparr>n_title = ttl, n_body_due = due, n_body_client = client,
         n_icon = ''/icons/icon-192.png'', n_badge = ''/icons/badge-72.png'',
         n_tag = tag, n_requireInteraction = True,
         n_data_taskId = taskId, n_data_type = ''reminder'', n_data_level = lvl,
         n_silent = (if isIOS then Some False else None),
         n_vibrate = (if isIOS then Some [200, 100, 200] else None)\<rparr>])"

text \<open>The body of \<^verbatim>\<open>NOTIFICATION_LEVELS.forEach\<close> (lines 305-330).\<close>

definition check_level ::
  "permission \<Rightarrow> bool \<Rightarrow> task \<Rightarrow> int \<Rightarrow> int \<Rightarrow> notif_state \<Rightarrow> level \<Rightarrow> notif_state" where
  "check_level perm isIOS t due mleft st l =
    (if of_int mleft \<le> thresholdMinutes l \<and> of_int mleft > thresholdMinutes l - 1 then
       (if notificationKey t l \<notin> notified st then
          st\<lparr>shown := showNotification perm isIOS
                 (alarm_clock @ '' '' @ label l @ '' reminder: '' @ title t) due
                 (case clientName t of None \<Rightarrow> ''N/A''
                  | Some c \<Rightarrow> (if c = [] then ''N/A'' else c))
                 (notificationKey t l) (task_id t) (label l) (shown st),
             notified := insert (notificationKey t l) (notified st)\<rparr>
        else st)
     else st)"

text \<open>The clean-up loop (lines 334-337).\<close>

definition clean_up :: "task \<Rightarrow> notif_state \<Rightarrow> level \<Rightarrow> notif_state" where
  "clean_up t st l = st\<lparr>notified := notified st - {notificationKey t l}\<rparr>"

text \<open>
  The body of \<^verbatim>\<open>activeTasks.forEach\<close> (lines 299-340). With an unparseable due date
  \<^verbatim>\<open>minutesLeft\<close> is NaN and every comparison with it is false, so neither loop
  changes anything.
\<close>

definition check_task :: "permission \<Rightarrow> bool \<Rightarrow> int \<Rightarrow> notif_state \<Rightarrow> task \<Rightarrow> notif_state" where
  "check_task perm isIOS now st t =
    (case dueUtc t of
       Absent \<Rightarrow> st
     | Unparseable \<Rightarrow> st
     | DueAt due \<Rightarrow>
         (let mleft = minutesLeft due now;
              st1 = foldl (check_level perm isIOS t due mleft) st NOTIFICATION_LEVELS
          in if mleft > 5 * 60 then foldl (clean_up t) st1 NOTIFICATION_LEVELS else st1))"

definition checkNotifications ::
  "permission \<Rightarrow> bool \<Rightarrow> task list \<Rightarrow> int \<Rightarrow> notif_state \<Rightarrow> notif_state" where
  "checkNotifications perm isIOS tasks now st = foldl (check_task perm isIOS now) st tasks"

text \<open>
  One run of the effect of \<^verbatim>\<open>useEnhancedNotifications\<close> (lines 293-351), and each
  firing of the interval it installs: without the permission the effect returns before
  \<^verbatim>\<open>checkNotifications\<close> is defined, so no tick ever happens.
\<close>

definition tick :: "permission \<Rightarrow> bool \<Rightarrow> task list \<Rightarrow> int \<Rightarrow> notif_state \<Rightarrow> notif_state" where
  "tick perm isIOS tasks now st =
    (if perm \<noteq> Granted then st else checkNotifications perm isIOS tasks now st)"

text \<open>Ticks at the instants \<open>nows\<close>, in order, over a fixed list of active tasks.\<close>

definition run_ticks ::
  "permission \<Rightarrow> bool \<Rightarrow> task list \<Rightarrow> int list \<Rightarrow> notif_state \<Rightarrow> notif_state" where
  "run_ticks perm isIOS tasks nows st = foldl (\<lambda>s now. tick perm isIOS tasks now s) st nows"

text \<open>The state a freshly mounted hook starts from.\<close>

definition initial_state :: notif_state where
  "initial_state = \<lparr>notified = {}, shown = []\<rparr>"

subsection \<open>Notions used to state the properties\<close>

text \<open>The notifications created on the way from state \<open>st\<close> to state \<open>st'\<close>.\<close>

definition created_between :: "notif_state \<Rightarrow> notif_state \<Rightarrow> notification list" where
  "created_between st st' = drop (length (shown st)) (shown st')"

text \<open>The notifications created so far for the task with identifier \<open>i\<close>.\<close>

definition shown_for :: "string \<Rightarrow> notif_state \<Rightarrow> notification list" where
  "shown_for i st = filter (\<lambda>n. n_data_taskId n = i) (shown st)"

text \<open>The notification that a reminder of level \<open>l\<close> for task \<open>t\<close> consists of.\<close>

definition reminder :: "bool \<Rightarrow> task \<Rightarrow> int \<Rightarrow> level \<Rightarrow> notification" where
  "reminder isIOS t due l =
    \<lparr>n_title = alarm_clock @ '' '' @ label l @ '' reminder: '' @ title t,
     n_body_due = due,
     n_body_client = (case clientName t of None \<Rightarrow> ''N/A''
                      | Some c \<Rightarrow> (if c = [] then ''N/A'' else c)),
     n_icon = ''/icons/icon-192.png'', n_badge = ''/icons/badge-72.png'',
     n_tag = notificationKey t l, n_requireInteraction = True,
     n_data_taskId = task_id t, n_data_type = ''reminder'', n_data_level = label l,
     n_silent = (if isIOS then Some False else None),
     n_vibrate = (if isIOS then Some [200, 100, 200] else None)\<rparr>"

subsection \<open>The design-level description, for comparison\<close>

text \<open>
  The tag as the specification words it: \<^verbatim>\<open>"task-" + taskId + "-" + windowMinutes\<close>,
  the window size in minutes written in decimal.
\<close>

fun decimal :: "nat \<Rightarrow> string" where
  "decimal n =
    (if n < 10 then [''0123456789'' ! n]
     else decimal (n div 10) @ [''0123456789'' ! (n mod 10)])"

definition spec_dedupTag :: "string \<Rightarrow> nat \<Rightarrow> string" where
  "spec_dedupTag taskId windowMinutes = ''task-'' @ taskId @ ''-'' @ decimal windowMinutes"

text \<open>
  The dedup ledger and the tick for one task as the specification words them (its
  sections 3, 4.1 and 4.2), on the specification's own data: a threshold is a pair of a
  window size in minutes and a label, a ledger entry is a pair of a task identifier and
  a window size, and a dispatch carries the task, the threshold's label and the due time.
  Nothing here is taken from the code.
\<close>

record spec_task =
  s_id :: string
  s_dueAt :: "int option"

type_synonym spec_ledger = "(string \<times> int) set"

type_synonym spec_dispatch = "string \<times> string \<times> int"

definition spec_thresholds :: "(int \<times> string) list" where
  "spec_thresholds =
    [(300, ''5 hours''), (120, ''2 hours''), (60, ''1 hour''),
     (30, ''30 minutes''), (10, ''10 minutes'')]"

definition spec_in_window :: "int \<Rightarrow> int \<Rightarrow> bool" where
  "spec_in_window W minutesRemaining = (W - 1 < minutesRemaining \<and> minutesRemaining \<le> W)"

definition spec_shouldFire :: "spec_ledger \<Rightarrow> string \<Rightarrow> int \<Rightarrow> bool" where
  "spec_shouldFire L taskId windowMinutes = ((taskId, windowMinutes) \<notin> L)"

definition spec_record :: "spec_ledger \<Rightarrow> string \<Rightarrow> int \<Rightarrow> spec_ledger" where
  "spec_record L taskId windowMinutes = insert (taskId, windowMinutes) L"

definition spec_prune :: "spec_ledger \<Rightarrow> string \<Rightarrow> int \<Rightarrow> int \<Rightarrow> spec_ledger" where
  "spec_prune L taskId minutesRemaining farCutoffMinutes =
    (if minutesRemaining > farCutoffMinutes then Set.filter (\<lambda>e. fst e \<noteq> taskId) L else L)"

text \<open>Step 3 of the tick, for one threshold: in window and not yet fired, dispatch and record.\<close>

definition spec_fire ::
  "string \<Rightarrow> int \<Rightarrow> int \<Rightarrow> spec_ledger \<times> spec_dispatch list \<Rightarrow> int \<times> string \<Rightarrow>
   spec_ledger \<times> spec_dispatch list" where
  "spec_fire taskId dueAt minutesRemaining S th =
    (if spec_in_window (fst th) minutesRemaining \<and> spec_shouldFire (fst S) taskId (fst th)
     then (spec_record (fst S) taskId (fst th), snd S @ [(taskId, snd th, dueAt)])
     else S)"

text \<open>
  The tick for one task: compute the minutes remaining; beyond the far cut-off prune the
  task's ledger entries and skip firing; otherwise go through the thresholds in
  descending order and fire.
\<close>

definition spec_tick_task ::
  "int \<Rightarrow> int \<Rightarrow> spec_ledger \<times> spec_dispatch list \<Rightarrow> spec_task \<Rightarrow>
   spec_ledger \<times> spec_dispatch list" where
  "spec_tick_task farCutoffMinutes now S t =
    (case s_dueAt t of
       None \<Rightarrow> S
     | Some dueAt \<Rightarrow>
         (let minutesRemaining = (dueAt - now) div 60000
          in if minutesRemaining > farCutoffMinutes
             then (spec_prune (fst S) (s_id t) minutesRemaining farCutoffMinutes, snd S)
             else foldl (spec_fire (s_id t) dueAt minutesRemaining) S spec_thresholds))"

text \<open>
  How the state of the code is read as the specification's: a key
  \<^verbatim>\<open>task-<id>-<hours>\<close> of a level of the table stands for the ledger entry of that
  task and the level's minutes; a notification stands for the dispatch of its task
  identifier, its level's label and the due time in its body. An unparseable due date
  counts as none.
\<close>

definition abs_ledger :: "notif_state \<Rightarrow> spec_ledger" where
  "abs_ledger st =
    {(i, W). \<exists>l\<in>set NOTIFICATION_LEVELS.
       thresholdMinutes l = of_int W \<and> ''task-'' @ i @ ''-'' @ hours_text l \<in> notified st}"

definition abs_dispatches :: "notif_state \<Rightarrow> spec_dispatch list" where
  "abs_dispatches st = map (\<lambda>n. (n_data_taskId n, n_data_level n, n_body_due n)) (shown st)"

definition abs_state :: "notif_state \<Rightarrow> spec_ledger \<times> spec_dispatch list" where
  "abs_state st = (abs_ledger st, abs_dispatches st)"

definition abs_task :: "task \<Rightarrow> spec_task" where
  "abs_task t =
    \<lparr>s_id = task_id t,
     s_dueAt = (case dueUtc t of DueAt due \<Rightarrow> Some due | _ \<Rightarrow> None)\<rparr>"

text \<open>The ledger entries of one task: its keys, for the levels of the table.\<close>

definition ledger_for :: "task \<Rightarrow> notif_state \<Rightarrow> string set" where
  "ledger_for t st = notified st \<inter> notificationKey t ` set NOTIFICATION_LEVELS"

text \<open>The instants of \<open>N\<close> ticks one minute apart, the first at \<open>start\<close>.\<close>

definition minute_ticks :: "int \<Rightarrow> nat \<Rightarrow> int list" where
  "minute_ticks start N = map (\<lambda>k. start + int k * 60000) [0..<N]"

text \<open>A task to run the engine on.\<close>

definition sample_task :: "string \<Rightarrow> dueUtc_value \<Rightarrow> task" where
  "sample_task i d =
    \<lparr>task_id = i, title = ''Send invoice'', clientName = None, dueUtc = d, completed = False\<rparr>"

section \<open>The table of levels\<close>

lemma threshold_values: "map thresholdMinutes NOTIFICATION_LEVELS = [300, 120, 60, 30, 10]"
  by (simp add: NOTIFICATION_LEVELS_def thresholdMinutes_def)

lemma level_threshold:
  "l \<in> set NOTIFICATION_LEVELS \<Longrightarrow> thresholdMinutes l \<in> {300, 120, 60, 30, 10}"
  by (auto simp: NOTIFICATION_LEVELS_def thresholdMinutes_def)

lemma distinct_thresholds: "distinct (map thresholdMinutes NOTIFICATION_LEVELS)"
  by (simp add: threshold_values)

lemma level_text_no_dash:
  "l \<in> set NOTIFICATION_LEVELS \<Longrightarrow> CHR ''-'' \<notin> set (hours_text l)"
  by (auto simp: NOTIFICATION_LEVELS_def)

lemma in_window_iff:
  assumes "l \<in> set NOTIFICATION_LEVELS"
  shows "(of_int m \<le> thresholdMinutes l \<and> of_int m > thresholdMinutes l - 1)
         \<longleftrightarrow> of_int m = thresholdMinutes l"
  using level_threshold [OF assms] by auto

section \<open>Keys\<close>

lemma split_last_sep:
  "c \<notin> set h \<Longrightarrow> c \<notin> set h' \<Longrightarrow> a @ c # h = b @ c # h' \<Longrightarrow> a = b \<and> h = h'"
  by (auto simp: append_eq_append_conv2 Cons_eq_append_conv append_eq_Cons_conv)

lemma key_inj:
  assumes "l \<in> set NOTIFICATION_LEVELS" "l' \<in> set NOTIFICATION_LEVELS"
    and "notificationKey t l = notificationKey t' l'"
  shows "task_id t = task_id t' \<and> hours_text l = hours_text l'"
  using assms(3) level_text_no_dash [OF assms(1)] level_text_no_dash [OF assms(2)]
  unfolding notificationKey_def by (auto dest: split_last_sep)

section \<open>The two loops over the levels\<close>

lemma check_level_miss:
  "l \<in> set NOTIFICATION_LEVELS \<Longrightarrow> of_int m \<noteq> thresholdMinutes l \<Longrightarrow>
   check_level p ios t due m st l = st"
  using in_window_iff [of l m] by (auto simp: check_level_def)

lemma foldl_check_level_none:
  "set ls \<subseteq> set NOTIFICATION_LEVELS \<Longrightarrow> \<forall>l\<in>set ls. of_int m \<noteq> thresholdMinutes l \<Longrightarrow>
   foldl (check_level p ios t due m) st ls = st"
  by (induction ls arbitrary: st) (simp_all add: check_level_miss)

lemma foldl_check_level_one:
  assumes "set ls \<subseteq> set NOTIFICATION_LEVELS" "distinct (map thresholdMinutes ls)"
    and "l \<in> set ls" "of_int m = thresholdMinutes l"
  shows "foldl (check_level p ios t due m) st ls = check_level p ios t due m st l"
proof -
  from assms(3) obtain xs ys where ls: "ls = xs @ l # ys"
    by (auto dest: split_list)
  have xs: "\<forall>k\<in>set xs. of_int m \<noteq> thresholdMinutes k"
    and ys: "\<forall>k\<in>set ys. of_int m \<noteq> thresholdMinutes k"
    using assms(2,4) unfolding ls by auto
  have "foldl (check_level p ios t due m) st xs = st"
    using assms(1) xs unfolding ls by (intro foldl_check_level_none) auto
  moreover have "foldl (check_level p ios t due m) s ys = s" for s
    using assms(1) ys unfolding ls by (intro foldl_check_level_none) auto
  ultimately show ?thesis by (simp add: ls)
qed

lemma foldl_clean_up:
  "foldl (clean_up t) st ls = st\<lparr>notified := notified st - notificationKey t ` set ls\<rparr>"
proof (induction ls arbitrary: st)
  case Nil
  show ?case by simp
next
  case (Cons a ls)
  have eq: "notified st - {notificationKey t a} - notificationKey t ` set ls
      = notified st - insert (notificationKey t a) (notificationKey t ` set ls)"
    by blast
  have "foldl (clean_up t) st (a # ls) = foldl (clean_up t) (clean_up t st a) ls"
    by simp
  also have "\<dots> = (clean_up t st a)\<lparr>notified :=
      notified (clean_up t st a) - notificationKey t ` set ls\<rparr>"
    by (rule Cons.IH)
  also have "\<dots> = st\<lparr>notified := notified st - notificationKey t ` set (a # ls)\<rparr>"
    using eq by (simp add: clean_up_def)
  finally show ?case .
qed

section \<open>One task in one tick\<close>

lemma check_task_far:
  assumes "dueUtc t = DueAt due" "minutesLeft due now > 300"
  shows "check_task p ios now st t =
         st\<lparr>notified := notified st - notificationKey t ` set NOTIFICATION_LEVELS\<rparr>"
proof -
  have "\<forall>l\<in>set NOTIFICATION_LEVELS. of_int (minutesLeft due now) \<noteq> thresholdMinutes l"
  proof
    fix l assume "l \<in> set NOTIFICATION_LEVELS"
    from level_threshold [OF this] assms(2)
    show "of_int (minutesLeft due now) \<noteq> thresholdMinutes l"
      by auto
  qed
  then have "foldl (check_level p ios t due (minutesLeft due now)) st NOTIFICATION_LEVELS = st"
    by (intro foldl_check_level_none) auto
  then show ?thesis using assms by (simp add: check_task_def Let_def foldl_clean_up)
qed

lemma check_task_at:
  assumes "dueUtc t = DueAt due" "l \<in> set NOTIFICATION_LEVELS"
    and "of_int (minutesLeft due now) = thresholdMinutes l"
  shows "check_task p ios now st t = check_level p ios t due (minutesLeft due now) st l"
proof -
  have "minutesLeft due now \<le> 300"
    using level_threshold [OF assms(2)] assms(3) by auto
  moreover have "foldl (check_level p ios t due (minutesLeft due now)) st NOTIFICATION_LEVELS
      = check_level p ios t due (minutesLeft due now) st l"
    using assms(2,3) by (intro foldl_check_level_one distinct_thresholds) auto
  ultimately show ?thesis using assms(1) by (simp add: check_task_def Let_def)
qed

lemma check_task_idle:
  assumes "dueUtc t = DueAt due" "minutesLeft due now \<le> 300"
    and "\<forall>l\<in>set NOTIFICATION_LEVELS. of_int (minutesLeft due now) \<noteq> thresholdMinutes l"
  shows "check_task p ios now st t = st"
proof -
  have "foldl (check_level p ios t due (minutesLeft due now)) st NOTIFICATION_LEVELS = st"
    using assms(3) by (intro foldl_check_level_none) auto
  then show ?thesis using assms(1,2) by (simp add: check_task_def Let_def)
qed

lemma check_level_hit:
  assumes "l \<in> set NOTIFICATION_LEVELS" "of_int m = thresholdMinutes l"
    and "notificationKey t l \<notin> notified st"
  shows "check_level Granted ios t due m st l =
         st\<lparr>shown := shown st @ [reminder ios t due l],
            notified := insert (notificationKey t l) (notified st)\<rparr>"
  using assms in_window_iff [of l m]
  by (simp add: check_level_def showNotification_def reminder_def)

lemma check_level_known:
  "notificationKey t l \<in> notified st \<Longrightarrow> check_level p ios t due m st l = st"
  by (simp add: check_level_def)

lemma minutesLeft_mono: "now \<le> now' \<Longrightarrow> minutesLeft due now' \<le> minutesLeft due now"
  by (simp add: minutesLeft_def zdiv_mono1)

lemma check_task_overdue:
  assumes "dueUtc t = DueAt due" "minutesLeft due now \<le> 0"
  shows "check_task p ios now st t = st"
proof (rule check_task_idle [OF assms(1)])
  show "minutesLeft due now \<le> 300" using assms(2) by simp
  show "\<forall>l\<in>set NOTIFICATION_LEVELS. of_int (minutesLeft due now) \<noteq> thresholdMinutes l"
  proof
    fix l assume "l \<in> set NOTIFICATION_LEVELS"
    from level_threshold [OF this] assms(2)
    show "of_int (minutesLeft due now) \<noteq> thresholdMinutes l" by auto
  qed
qed

section \<open>Tasks that a tick passes over\<close>

lemma tick_skip:
  assumes "\<And>s. check_task p ios now s t = s"
  shows "tick p ios (pre @ t # post) now st = tick p ios (pre @ post) now st"
proof -
  have eq: "checkNotifications p ios (pre @ t # post) now st
      = checkNotifications p ios (pre @ post) now st"
    by (simp add: checkNotifications_def assms)
  show ?thesis unfolding tick_def eq by (rule refl)
qed

lemma run_ticks_skip:
  assumes "\<And>n s. n \<in> set nows \<Longrightarrow> check_task p ios n s t = s"
  shows "run_ticks p ios (pre @ t # post) nows st = run_ticks p ios (pre @ post) nows st"
  using assms
proof (induction nows arbitrary: st)
  case Nil
  show ?case by (simp add: run_ticks_def)
next
  case (Cons n nows)
  have "tick p ios (pre @ t # post) n st = tick p ios (pre @ post) n st"
    by (rule tick_skip) (simp add: Cons.prems)
  moreover have "run_ticks p ios (pre @ t # post) nows s
      = run_ticks p ios (pre @ post) nows s" for s
    by (rule Cons.IH) (simp add: Cons.prems)
  ultimately show ?case by (simp add: run_ticks_def)
qed

lemma tick_no_tasks: "tick p ios [] now st = st"
  by (simp add: tick_def checkNotifications_def)

lemma run_ticks_no_tasks: "run_ticks p ios [] nows st = st"
  unfolding run_ticks_def by (induction nows) (simp_all add: tick_no_tasks)

text \<open>
  Claim C7. Once the minutes left of a task are zero or negative, no level is in its
  window and the task changes nothing: at every later instant \<open>n\<close> the step for the task
  returns the state it was given, whatever the ledger holds, so no notification is
  created and no key recorded for it. A run of ticks with the task in the list of
  active tasks ends in the state that the run without the task ends in.
\<close>

theorem overdue_never_fires:
  assumes "dueUtc t = DueAt due" "minutesLeft due now \<le> 0" "\<forall>n\<in>set nows. now \<le> n"
  shows "(\<forall>n\<in>set nows. \<forall>s. check_task perm ios n s t = s) \<and>
         run_ticks perm ios (pre @ t # post) nows st = run_ticks perm ios (pre @ post) nows st"
proof -
  have *: "check_task perm ios n s t = s" if "n \<in> set nows" for n s
  proof -
    from that assms(3) have "now \<le> n" by simp
    from minutesLeft_mono [OF this, of due] assms(2) have "minutesLeft due n \<le> 0" by simp
    from check_task_overdue [OF assms(1) this] show ?thesis .
  qed
  then show ?thesis by (auto intro: run_ticks_skip)
qed

theorem overdue_never_fires_witness:
  "dueUtc (sample_task ''a'' (DueAt 1800000)) = DueAt 1800000 \<and>
   minutesLeft 1800000 1800000 \<le> 0 \<and>
   (1800000::int) \<le> 1800000 \<and> (1800000::int) \<le> 1860000 \<and>
   check_task Granted False 1860000 initial_state (sample_task ''a'' (DueAt 1800000))
     = initial_state \<and>
   run_ticks Granted False [sample_task ''a'' (DueAt 1800000)] [1800000, 1860000] initial_state
     = initial_state"
proof -
  have h1: "dueUtc (sample_task ''a'' (DueAt 1800000)) = DueAt 1800000"
    by (simp add: sample_task_def)
  have h2: "minutesLeft 1800000 1800000 \<le> 0"
    by (simp add: minutesLeft_def)
  have h3: "\<forall>n\<in>set [1800000, 1860000]. (1800000::int) \<le> n"
    by simp
  note r = overdue_never_fires [OF h1 h2 h3, of Granted False "[]" "[]" initial_state]
  from r have a: "check_task Granted False 1860000 initial_state
      (sample_task ''a'' (DueAt 1800000)) = initial_state"
    by simp
  from r have b: "run_ticks Granted False [sample_task ''a'' (DueAt 1800000)]
      [1800000, 1860000] initial_state = initial_state"
    by (simp add: run_ticks_no_tasks)
  from h1 h2 a b show ?thesis by simp
qed

text \<open>
  Claim C8. A task without a due date is passed over: its step returns the state it was
  given, for every instant and every ledger, so it gets no notification and no ledger
  entry, and nothing is raised. Any number of ticks with the task in the list of active
  tasks end in the state that the ticks without the task end in.
\<close>

theorem absent_due_date_skipped:
  "dueUtc t = Absent \<Longrightarrow>
   check_task perm ios now st t = st \<and>
   run_ticks perm ios (pre @ t # post) nows st = run_ticks perm ios (pre @ post) nows st"
proof
  assume a: "dueUtc t = Absent"
  then show "check_task perm ios now st t = st" by (simp add: check_task_def)
  from a show "run_ticks perm ios (pre @ t # post) nows st
      = run_ticks perm ios (pre @ post) nows st"
    by (intro run_ticks_skip) (simp add: check_task_def)
qed

theorem absent_due_date_skipped_witness:
  "dueUtc (sample_task ''a'' Absent) = Absent \<and>
   check_task Granted False 0 initial_state (sample_task ''a'' Absent) = initial_state \<and>
   run_ticks Granted False [sample_task ''a'' Absent] [0, 60000, 120000] initial_state
     = initial_state"
proof -
  have h: "dueUtc (sample_task ''a'' Absent) = Absent"
    by (simp add: sample_task_def)
  note r = absent_due_date_skipped
    [OF h, of Granted False 0 initial_state "[]" "[]" "[0, 60000, 120000]"]
  from r have b: "run_ticks Granted False [sample_task ''a'' Absent] [0, 60000, 120000]
      initial_state = initial_state"
    by (simp add: run_ticks_no_tasks)
  from h r b show ?thesis by blast
qed

text \<open>
  Claim C9. Unless the permission is granted, a tick does nothing: the state after it,
  ledger and created notifications alike, is the state before it, for every list of
  active tasks and every instant, and so it is after any number of ticks.
\<close>

theorem no_permission_no_effect:
  "perm \<noteq> Granted \<Longrightarrow>
   tick perm ios tasks now st = st \<and> run_ticks perm ios tasks nows st = st"
proof
  assume np: "perm \<noteq> Granted"
  then show "tick perm ios tasks now st = st" by (simp add: tick_def)
  from np have "tick perm ios tasks n s = s" for n s by (simp add: tick_def)
  then show "run_ticks perm ios tasks nows st = st"
    unfolding run_ticks_def by (induction nows arbitrary: st) simp_all
qed

theorem no_permission_no_effect_witness:
  "Denied \<noteq> Granted \<and>
   tick Denied False [sample_task ''a'' (DueAt 1800000)] 0 initial_state = initial_state \<and>
   run_ticks Denied False [sample_task ''a'' (DueAt 1800000)] [0, 60000] initial_state
     = initial_state"
  using no_permission_no_effect
    [of Denied False "[sample_task ''a'' (DueAt 1800000)]" 0 initial_state "[0, 60000]"]
  by simp

section \<open>The firing window\<close>

lemma distinct_texts: "distinct (map hours_text NOTIFICATION_LEVELS)"
  by (simp add: NOTIFICATION_LEVELS_def)

lemma level_by_text:
  "l \<in> set NOTIFICATION_LEVELS \<Longrightarrow> l' \<in> set NOTIFICATION_LEVELS \<Longrightarrow>
   hours_text l = hours_text l' \<Longrightarrow> l = l'"
  using distinct_texts by (auto simp: distinct_map dest: inj_onD)

lemma key_same_task:
  "l \<in> set NOTIFICATION_LEVELS \<Longrightarrow> l' \<in> set NOTIFICATION_LEVELS \<Longrightarrow>
   notificationKey t l = notificationKey t l' \<Longrightarrow> l = l'"
  by (simp add: notificationKey_def level_by_text)


lemma check_task_cases:
  assumes "dueUtc t = DueAt due"
  obtains (far) "minutesLeft due now > 300"
      "check_task p ios now st t =
         st\<lparr>notified := notified st - notificationKey t ` set NOTIFICATION_LEVELS\<rparr>"
    | (at) l where "l \<in> set NOTIFICATION_LEVELS"
      "of_int (minutesLeft due now) = thresholdMinutes l"
      "check_task p ios now st t = check_level p ios t due (minutesLeft due now) st l"
    | (idle) "minutesLeft due now \<le> 300"
      "\<forall>l\<in>set NOTIFICATION_LEVELS. of_int (minutesLeft due now) \<noteq> thresholdMinutes l"
      "check_task p ios now st t = st"
proof (cases "minutesLeft due now > 300")
  case True
  with check_task_far [OF assms this] far show ?thesis by blast
next
  case le: False
  show ?thesis
  proof (cases "\<exists>l\<in>set NOTIFICATION_LEVELS. of_int (minutesLeft due now) = thresholdMinutes l")
    case True
    then obtain l where l: "l \<in> set NOTIFICATION_LEVELS"
      "of_int (minutesLeft due now) = thresholdMinutes l" by blast
    from check_task_at [OF assms l] l at show ?thesis by blast
  next
    case False
    then have n: "\<forall>l\<in>set NOTIFICATION_LEVELS. of_int (minutesLeft due now) \<noteq> thresholdMinutes l"
      by blast
    from le have "minutesLeft due now \<le> 300" by simp
    from check_task_idle [OF assms this n] this n idle show ?thesis by blast
  qed
qed

lemma created_between_same [simp]: "created_between st st = []"
  by (simp add: created_between_def)

lemma created_between_append [simp]:
  "created_between st (st\<lparr>shown := shown st @ xs, notified := N\<rparr>) = xs"
  by (simp add: created_between_def)

lemma created_between_ledger [simp]:
  "created_between st (st\<lparr>notified := N\<rparr>) = []"
  by (simp add: created_between_def)

lemma reminder_tag [simp]: "n_tag (reminder ios t due l) = notificationKey t l"
  by (simp add: reminder_def)

lemma reminder_level [simp]: "n_data_level (reminder ios t due l) = label l"
  by (simp add: reminder_def)

lemma reminder_taskId [simp]: "n_data_taskId (reminder ios t due l) = task_id t"
  by (simp add: reminder_def)

text \<open>
  Claim C2. For a task with a due date and a level of the table whose key is not in the
  ledger, the minutes left are \<open>(due - now) div 60000\<close>, rounded down, and the step
  for the task creates a notification with the key of that level, and records the key,
  if and only if the minutes left \<open>m\<close> satisfy \<open>W - 1 < m \<le> W\<close> for the threshold
  \<open>W\<close> of the level. Outside that band neither happens.
\<close>

theorem in_window_band:
  assumes "l \<in> set NOTIFICATION_LEVELS" "dueUtc t = DueAt due"
    and "notificationKey t l \<notin> notified st"
  shows "minutesLeft due now = (due - now) div 60000 \<and>
    ((\<exists>n\<in>set (created_between st (check_task Granted ios now st t)).
        n_tag n = notificationKey t l)
      \<longleftrightarrow> thresholdMinutes l - 1 < of_int (minutesLeft due now) \<and>
          of_int (minutesLeft due now) \<le> thresholdMinutes l) \<and>
    (notificationKey t l \<in> notified (check_task Granted ios now st t)
      \<longleftrightarrow> thresholdMinutes l - 1 < of_int (minutesLeft due now) \<and>
          of_int (minutesLeft due now) \<le> thresholdMinutes l)"
proof -
  let ?m = "minutesLeft due now"
  let ?st' = "check_task Granted ios now st t"
  let ?band = "thresholdMinutes l - 1 < of_int ?m \<and> of_int ?m \<le> thresholdMinutes l"
  have band: "?band \<longleftrightarrow> of_int ?m = thresholdMinutes l"
    using in_window_iff [OF assms(1), of ?m] by auto
  have "(\<exists>n\<in>set (created_between st ?st'). n_tag n = notificationKey t l) = ?band
      \<and> (notificationKey t l \<in> notified ?st') = ?band"
  proof (cases "of_int ?m = thresholdMinutes l")
    case True
    from check_task_at [OF assms(2,1) True] check_level_hit [OF assms(1) True assms(3)]
    have "?st' = st\<lparr>shown := shown st @ [reminder ios t due l],
        notified := insert (notificationKey t l) (notified st)\<rparr>"
      by simp
    with True band show ?thesis by simp
  next
    case False
    with band have nb: "\<not> ?band" by simp
    from assms(2) have "(\<forall>n\<in>set (created_between st ?st'). n_tag n \<noteq> notificationKey t l)
        \<and> notificationKey t l \<notin> notified ?st'"
    proof (cases rule: check_task_cases [where now = now and p = Granted and ios = ios and st = st])
      case far
      with assms(3) show ?thesis by simp
    next
      case (at k)
      with False have "k \<noteq> l" by auto
      with key_same_task [OF at(1) assms(1)] have ne: "notificationKey t k \<noteq> notificationKey t l"
        by auto
      show ?thesis
      proof (cases "notificationKey t k \<in> notified st")
        case True
        with at(3) check_level_known [OF True] assms(3) show ?thesis by simp
      next
        case nk: False
        from at(3) check_level_hit [OF at(1,2) nk] ne assms(3) show ?thesis by simp
      qed
    next
      case idle
      with assms(3) show ?thesis by simp
    qed
    with nb show ?thesis by blast
  qed
  then show ?thesis by (simp add: minutesLeft_def)
qed

theorem in_window_band_witness:
  "NOTIFICATION_LEVELS ! 3 \<in> set NOTIFICATION_LEVELS \<and>
   dueUtc (sample_task ''a'' (DueAt 1800000)) = DueAt 1800000 \<and>
   notificationKey (sample_task ''a'' (DueAt 1800000)) (NOTIFICATION_LEVELS ! 3)
     \<notin> notified initial_state \<and>
   minutesLeft 1800000 0 = 30 \<and> thresholdMinutes (NOTIFICATION_LEVELS ! 3) = 30 \<and>
   notificationKey (sample_task ''a'' (DueAt 1800000)) (NOTIFICATION_LEVELS ! 3)
     \<in> notified (check_task Granted False 0 initial_state (sample_task ''a'' (DueAt 1800000))) \<and>
   notificationKey (sample_task ''a'' (DueAt 1800000)) (NOTIFICATION_LEVELS ! 3)
     \<notin> notified (check_task Granted False 60000 initial_state
         (sample_task ''a'' (DueAt 1800000)))"
proof -
  let ?t = "sample_task ''a'' (DueAt 1800000)"
  let ?l = "NOTIFICATION_LEVELS ! 3"
  have h1: "?l \<in> set NOTIFICATION_LEVELS"
    by (simp add: NOTIFICATION_LEVELS_def)
  have h2: "dueUtc ?t = DueAt 1800000"
    by (simp add: sample_task_def)
  have h3: "notificationKey ?t ?l \<notin> notified initial_state"
    by (simp add: initial_state_def)
  have m0: "minutesLeft 1800000 0 = 30" and m1: "minutesLeft 1800000 60000 = 29"
    by (simp_all add: minutesLeft_def)
  have w: "thresholdMinutes ?l = 30"
    by (simp add: NOTIFICATION_LEVELS_def thresholdMinutes_def)
  from in_window_band [OF h1 h2 h3, where ios = False and now = 0] m0 w
  have a: "notificationKey ?t ?l \<in> notified (check_task Granted False 0 initial_state ?t)"
    by simp
  from in_window_band [OF h1 h2 h3, where ios = False and now = 60000] m1 w
  have b: "notificationKey ?t ?l \<notin> notified (check_task Granted False 60000 initial_state ?t)"
    by simp
  from h1 h2 h3 m0 w a b show ?thesis by blast
qed

section \<open>The tag of a reminder\<close>

lemma created_between_check_task:
  assumes "dueUtc t = DueAt due"
  shows "created_between st (check_task Granted ios now st t) = [] \<or>
    (\<exists>l\<in>set NOTIFICATION_LEVELS. of_int (minutesLeft due now) = thresholdMinutes l \<and>
       notificationKey t l \<notin> notified st \<and>
       created_between st (check_task Granted ios now st t) = [reminder ios t due l])"
  using assms
proof (cases rule: check_task_cases [where now = now and p = Granted and ios = ios and st = st])
  case far
  then show ?thesis by simp
next
  case (at k)
  show ?thesis
  proof (cases "notificationKey t k \<in> notified st")
    case True
    with at(3) check_level_known [OF True] show ?thesis by simp
  next
    case nk: False
    from at check_level_hit [OF at(1,2) nk] nk show ?thesis by auto
  qed
next
  case idle
  then show ?thesis by simp
qed

text \<open>
  Claim C4, as amended. Every notification that the step for a task creates belongs to a
  level of the table that is in its window; its tag is \<open>''task-''\<close>, the identifier of
  the task, \<open>''-''\<close> and the text of the level's \<^emph>\<open>hours\<close> (5, 2, 1, 0.5,
  0.16666666666666666), not its minutes; the tag is the key recorded in the ledger.
\<close>

theorem tag_is_key_with_hours:
  assumes "dueUtc t = DueAt due"
    and "n \<in> set (created_between st (check_task Granted ios now st t))"
  shows "\<exists>l\<in>set NOTIFICATION_LEVELS.
    thresholdMinutes l - 1 < of_int (minutesLeft due now) \<and>
    of_int (minutesLeft due now) \<le> thresholdMinutes l \<and>
    n_data_taskId n = task_id t \<and> n_data_level n = label l \<and>
    n_tag n = ''task-'' @ task_id t @ ''-'' @ hours_text l \<and>
    n_tag n \<in> notified (check_task Granted ios now st t)"
proof -
  from created_between_check_task [OF assms(1), of st ios now] assms(2)
  obtain l where l: "l \<in> set NOTIFICATION_LEVELS"
    "of_int (minutesLeft due now) = thresholdMinutes l"
    "notificationKey t l \<notin> notified st"
    "n = reminder ios t due l"
    by auto
  from check_task_at [OF assms(1) l(1,2)] check_level_hit [OF l(1,2,3)]
  have k: "notificationKey t l \<in> notified (check_task Granted ios now st t)"
    by simp
  have tag: "n_tag n = notificationKey t l"
    using l(4) by simp
  have "thresholdMinutes l - 1 < of_int (minutesLeft due now) \<and>
    of_int (minutesLeft due now) \<le> thresholdMinutes l \<and>
    n_data_taskId n = task_id t \<and> n_data_level n = label l \<and>
    n_tag n = ''task-'' @ task_id t @ ''-'' @ hours_text l \<and>
    n_tag n \<in> notified (check_task Granted ios now st t)"
    using l(2,4) k tag by (simp add: notificationKey_def)
  with l(1) show ?thesis by blast
qed

lemma sample_due_30:
  "check_task Granted False 0 initial_state (sample_task ''t1'' (DueAt 1800000)) =
   initial_state\<lparr>shown := shown initial_state @
       [reminder False (sample_task ''t1'' (DueAt 1800000)) 1800000 (NOTIFICATION_LEVELS ! 3)],
     notified := insert (notificationKey (sample_task ''t1'' (DueAt 1800000))
       (NOTIFICATION_LEVELS ! 3)) (notified initial_state)\<rparr>"
proof -
  let ?t = "sample_task ''t1'' (DueAt 1800000)"
  let ?l = "NOTIFICATION_LEVELS ! 3"
  have l: "?l \<in> set NOTIFICATION_LEVELS"
    by (simp add: NOTIFICATION_LEVELS_def)
  have d: "dueUtc ?t = DueAt 1800000"
    by (simp add: sample_task_def)
  have m: "of_int (minutesLeft 1800000 0) = thresholdMinutes ?l"
    by (simp add: minutesLeft_def NOTIFICATION_LEVELS_def thresholdMinutes_def)
  have k: "notificationKey ?t ?l \<notin> notified initial_state"
    by (simp add: initial_state_def)
  from check_task_at [OF d l m] check_level_hit [OF l m k] show ?thesis by simp
qed

lemma sample_key_30:
  "notificationKey (sample_task ''t1'' d) (NOTIFICATION_LEVELS ! 3) = ''task-t1-0.5''"
  by (simp add: notificationKey_def sample_task_def NOTIFICATION_LEVELS_def)

theorem tag_is_key_with_hours_witness:
  "dueUtc (sample_task ''t1'' (DueAt 1800000)) = DueAt 1800000 \<and>
   reminder False (sample_task ''t1'' (DueAt 1800000)) 1800000 (NOTIFICATION_LEVELS ! 3)
     \<in> set (created_between initial_state
         (check_task Granted False 0 initial_state (sample_task ''t1'' (DueAt 1800000)))) \<and>
   n_tag (reminder False (sample_task ''t1'' (DueAt 1800000)) 1800000 (NOTIFICATION_LEVELS ! 3))
     = ''task-t1-0.5'' \<and>
   (\<exists>l\<in>set NOTIFICATION_LEVELS.
     n_tag (reminder False (sample_task ''t1'' (DueAt 1800000)) 1800000 (NOTIFICATION_LEVELS ! 3))
       = ''task-'' @ task_id (sample_task ''t1'' (DueAt 1800000)) @ ''-'' @ hours_text l)"
proof -
  let ?t = "sample_task ''t1'' (DueAt 1800000)"
  let ?n = "reminder False ?t 1800000 (NOTIFICATION_LEVELS ! 3)"
  have h1: "dueUtc ?t = DueAt 1800000"
    by (simp add: sample_task_def)
  have h2: "?n \<in> set (created_between initial_state
      (check_task Granted False 0 initial_state ?t))"
    by (simp add: sample_due_30)
  have k: "n_tag ?n = ''task-t1-0.5''"
    by (simp add: sample_key_30)
  from tag_is_key_with_hours [OF h1 h2]
  have "\<exists>l\<in>set NOTIFICATION_LEVELS. n_tag ?n = ''task-'' @ task_id ?t @ ''-'' @ hours_text l"
    by blast
  with h1 h2 k show ?thesis by blast
qed

text \<open>
  The tag of the 30-minute reminder of task \<open>t1\<close> is \<open>task-t1-0.5\<close>, and the tag in
  the specification's wording would be \<open>task-t1-30\<close>.
\<close>

theorem tag_is_not_minutes_counterexample:
  "thresholdMinutes (NOTIFICATION_LEVELS ! 3) = 30 \<and>
   minutesLeft 1800000 0 = 30 \<and>
   map n_tag (created_between initial_state
     (check_task Granted False 0 initial_state (sample_task ''t1'' (DueAt 1800000))))
     = [''task-t1-0.5''] \<and>
   spec_dedupTag (task_id (sample_task ''t1'' (DueAt 1800000))) 30 = ''task-t1-30'' \<and>
   map n_tag (created_between initial_state
     (check_task Granted False 0 initial_state (sample_task ''t1'' (DueAt 1800000))))
     \<noteq> [spec_dedupTag (task_id (sample_task ''t1'' (DueAt 1800000))) 30]"
proof -
  have a: "thresholdMinutes (NOTIFICATION_LEVELS ! 3) = 30"
    by (simp add: NOTIFICATION_LEVELS_def thresholdMinutes_def)
  have b: "minutesLeft 1800000 0 = 30"
    by (simp add: minutesLeft_def)
  have c: "map n_tag (created_between initial_state
     (check_task Granted False 0 initial_state (sample_task ''t1'' (DueAt 1800000))))
     = [''task-t1-0.5'']"
    by (simp add: sample_due_30 sample_key_30)
  have d: "spec_dedupTag (task_id (sample_task ''t1'' (DueAt 1800000))) 30 = ''task-t1-30''"
    by (simp add: spec_dedupTag_def sample_task_def)
  from a b c d show ?thesis by simp
qed

section \<open>Tasks do not disturb each other\<close>

lemma key_other_task:
  assumes "task_id u \<noteq> task_id t" "l \<in> set NOTIFICATION_LEVELS"
  shows "notificationKey t l \<notin> notificationKey u ` set NOTIFICATION_LEVELS"
proof
  assume "notificationKey t l \<in> notificationKey u ` set NOTIFICATION_LEVELS"
  then obtain k where "k \<in> set NOTIFICATION_LEVELS" "notificationKey t l = notificationKey u k"
    by blast
  from key_inj [OF assms(2) this] assms(1) show False by simp
qed

lemma check_level_fire:
  assumes "l \<in> set NOTIFICATION_LEVELS" "of_int m = thresholdMinutes l"
    and "notificationKey t l \<notin> notified st"
  shows "check_level p ios t due m st l =
         st\<lparr>shown := (if p = Granted then shown st @ [reminder ios t due l] else shown st),
            notified := insert (notificationKey t l) (notified st)\<rparr>"
  using assms in_window_iff [of l m]
  by (simp add: check_level_def showNotification_def reminder_def)

lemma shown_for_append:
  "shown_for i (st\<lparr>shown := shown st @ xs, notified := N\<rparr>)
   = shown_for i st @ filter (\<lambda>n. n_data_taskId n = i) xs"
  by (simp add: shown_for_def)

lemma shown_for_ledger [simp]: "shown_for i (st\<lparr>notified := N\<rparr>) = shown_for i st"
  by (simp add: shown_for_def)

lemma check_task_frame:
  assumes "task_id u \<noteq> task_id t" "l \<in> set NOTIFICATION_LEVELS"
  shows "(notificationKey t l \<in> notified (check_task p ios now st u))
         = (notificationKey t l \<in> notified st) \<and>
         shown_for (task_id t) (check_task p ios now st u) = shown_for (task_id t) st"
proof (cases "dueUtc u")
  case (DueAt due)
  then show ?thesis
  proof (cases rule: check_task_cases [where now = now and p = p and ios = ios and st = st])
    case far
    with key_other_task [OF assms] show ?thesis by simp
  next
    case (at k)
    show ?thesis
    proof (cases "notificationKey u k \<in> notified st")
      case True
      with at(3) check_level_known [OF True] show ?thesis by simp
    next
      case nk: False
      from key_other_task [OF assms] at(1)
      have ne: "notificationKey t l \<noteq> notificationKey u k" by blast
      from at(3) check_level_fire [OF at(1,2) nk] ne assms(1) show ?thesis
        by (simp add: shown_for_def)
    qed
  next
    case idle
    then show ?thesis by simp
  qed
qed (simp_all add: check_task_def)

text \<open>
  Claim C10. When the step for a task prunes, because its minutes left exceed 300, it
  removes the keys of that task for all levels and leaves the ledger membership of every
  key of a task with another identifier as it was.
\<close>

theorem pruning_is_per_task:
  assumes "dueUtc t = DueAt due" "minutesLeft due now > 5 * 60"
    and "task_id t' \<noteq> task_id t" "l' \<in> set NOTIFICATION_LEVELS"
  shows "(\<forall>l\<in>set NOTIFICATION_LEVELS.
            notificationKey t l \<notin> notified (check_task perm ios now st t)) \<and>
         (notificationKey t' l' \<in> notified (check_task perm ios now st t)
            \<longleftrightarrow> notificationKey t' l' \<in> notified st)"
proof -
  from assms(2) have far: "minutesLeft due now > 300" by simp
  from check_task_far [OF assms(1) far]
  have "\<forall>l\<in>set NOTIFICATION_LEVELS.
      notificationKey t l \<notin> notified (check_task perm ios now st t)"
    by simp
  moreover from check_task_frame [OF assms(3) [symmetric] assms(4)]
  have "notificationKey t' l' \<in> notified (check_task perm ios now st t)
      \<longleftrightarrow> notificationKey t' l' \<in> notified st"
    by simp
  ultimately show ?thesis by blast
qed

theorem pruning_is_per_task_witness:
  "dueUtc (sample_task ''a'' (DueAt 36000000)) = DueAt 36000000 \<and>
   minutesLeft 36000000 0 > 5 * 60 \<and>
   task_id (sample_task ''b'' Absent) \<noteq> task_id (sample_task ''a'' (DueAt 36000000)) \<and>
   NOTIFICATION_LEVELS ! 3 \<in> set NOTIFICATION_LEVELS \<and>
   notificationKey (sample_task ''b'' Absent) (NOTIFICATION_LEVELS ! 3) = ''task-b-0.5'' \<and>
   notificationKey (sample_task ''a'' (DueAt 36000000)) (NOTIFICATION_LEVELS ! 3)
     = ''task-a-0.5'' \<and>
   ''task-b-0.5'' \<in> notified (check_task Granted False 0
      \<lparr>notified = {''task-a-0.5'', ''task-b-0.5''}, shown = []\<rparr>
      (sample_task ''a'' (DueAt 36000000))) \<and>
   ''task-a-0.5'' \<notin> notified (check_task Granted False 0
      \<lparr>notified = {''task-a-0.5'', ''task-b-0.5''}, shown = []\<rparr>
      (sample_task ''a'' (DueAt 36000000)))"
proof -
  let ?a = "sample_task ''a'' (DueAt 36000000)"
  let ?b = "sample_task ''b'' Absent"
  let ?st = "\<lparr>notified = {''task-a-0.5'', ''task-b-0.5''}, shown = []\<rparr>"
  have h1: "dueUtc ?a = DueAt 36000000" by (simp add: sample_task_def)
  have h2: "minutesLeft 36000000 0 > 5 * 60" by (simp add: minutesLeft_def)
  have h3: "task_id ?b \<noteq> task_id ?a" by (simp add: sample_task_def)
  have h4: "NOTIFICATION_LEVELS ! 3 \<in> set NOTIFICATION_LEVELS"
    by (simp add: NOTIFICATION_LEVELS_def)
  have kb: "notificationKey ?b (NOTIFICATION_LEVELS ! 3) = ''task-b-0.5''"
    and ka: "notificationKey ?a (NOTIFICATION_LEVELS ! 3) = ''task-a-0.5''"
    by (simp_all add: notificationKey_def sample_task_def NOTIFICATION_LEVELS_def)
  note r = pruning_is_per_task [OF h1 h2 h3 h4, of Granted False ?st]
  from r kb have b: "''task-b-0.5'' \<in> notified (check_task Granted False 0 ?st ?a)"
    by simp
  from r h4 ka have a: "''task-a-0.5'' \<notin> notified (check_task Granted False 0 ?st ?a)"
    by metis
  from h1 h2 h3 h4 ka kb a b show ?thesis by blast
qed

section \<open>A tick over many tasks, seen from one task\<close>

lemma ledger_for_frame:
  assumes "task_id u \<noteq> task_id t"
  shows "ledger_for t (check_task p ios now st u) = ledger_for t st"
  using check_task_frame [OF assms] by (auto simp: ledger_for_def)

lemma shown_for_frame:
  assumes "task_id u \<noteq> task_id (t::task)"
  shows "shown_for (task_id t) (check_task p ios now st u) = shown_for (task_id t) st"
proof -
  have "NOTIFICATION_LEVELS ! 0 \<in> set NOTIFICATION_LEVELS"
    by (simp add: NOTIFICATION_LEVELS_def)
  from check_task_frame [OF assms this] show ?thesis by simp
qed

lemma foldl_others:
  assumes "\<forall>u\<in>set us. task_id u \<noteq> task_id t"
  shows "ledger_for t (foldl (check_task p ios now) st us) = ledger_for t st \<and>
         shown_for (task_id t) (foldl (check_task p ios now) st us) = shown_for (task_id t) st"
  using assms
proof (induction us arbitrary: st)
  case Nil
  show ?case by simp
next
  case (Cons u us)
  from Cons.prems have u: "task_id u \<noteq> task_id t" and us: "\<forall>v\<in>set us. task_id v \<noteq> task_id t"
    by simp_all
  from Cons.IH [OF us, of "check_task p ios now st u"]
    ledger_for_frame [OF u] shown_for_frame [OF u]
  show ?case by simp
qed

lemma key_in_ledger_for:
  "l \<in> set NOTIFICATION_LEVELS \<Longrightarrow>
   (notificationKey t l \<in> ledger_for t st) = (notificationKey t l \<in> notified st)"
  by (simp add: ledger_for_def)

lemma ledger_for_pruned [simp]:
  "ledger_for t (st\<lparr>notified := notified st - notificationKey t ` set NOTIFICATION_LEVELS\<rparr>) = {}"
  by (auto simp: ledger_for_def)

lemma ledger_for_recorded:
  "l \<in> set NOTIFICATION_LEVELS \<Longrightarrow>
   ledger_for t (st\<lparr>shown := xs, notified := insert (notificationKey t l) (notified st)\<rparr>)
   = insert (notificationKey t l) (ledger_for t st)"
  by (auto simp: ledger_for_def)

lemma check_task_respects:
  assumes "ledger_for t a = ledger_for t b"
    and "shown_for (task_id t) a = shown_for (task_id t) b"
  shows "ledger_for t (check_task p ios now a t) = ledger_for t (check_task p ios now b t) \<and>
         shown_for (task_id t) (check_task p ios now a t)
           = shown_for (task_id t) (check_task p ios now b t)"
proof (cases "dueUtc t")
  case (DueAt due)
  then show ?thesis
  proof (cases rule: check_task_cases [where now = now and p = p and ios = ios and st = a])
    case far
    from check_task_far [OF DueAt far(1), of p ios b] far(2) assms(2) show ?thesis
      by (simp del: ledger_for_pruned add: ledger_for_pruned [of t a] ledger_for_pruned [of t b])
  next
    case (at l)
    note b = check_task_at [OF DueAt at(1,2), of p ios b]
    from key_in_ledger_for [OF at(1), of t a] key_in_ledger_for [OF at(1), of t b] assms(1)
    have same: "(notificationKey t l \<in> notified a) = (notificationKey t l \<in> notified b)"
      by simp
    show ?thesis
    proof (cases "notificationKey t l \<in> notified a")
      case True
      with same have "notificationKey t l \<in> notified b" by simp
      from check_level_known [OF this] check_level_known [OF True] at(3) b assms
      show ?thesis by simp
    next
      case False
      with same have nb: "notificationKey t l \<notin> notified b" by simp
      from check_level_fire [OF at(1,2) False] check_level_fire [OF at(1,2) nb] at(3) b assms
        ledger_for_recorded [OF at(1)]
      show ?thesis by (simp add: shown_for_def)
    qed
  next
    case idle
    from check_task_idle [OF DueAt idle(1,2), of p ios b] idle(3) assms show ?thesis by simp
  qed
qed (simp_all add: check_task_def assms)

lemma tick_simulates:
  assumes "\<forall>u\<in>set (pre @ post). task_id u \<noteq> task_id t"
    and "ledger_for t a = ledger_for t b"
    and "shown_for (task_id t) a = shown_for (task_id t) b"
  shows "ledger_for t (tick Granted ios (pre @ t # post) now a)
           = ledger_for t (check_task Granted ios now b t) \<and>
         shown_for (task_id t) (tick Granted ios (pre @ t # post) now a)
           = shown_for (task_id t) (check_task Granted ios now b t)"
proof -
  let ?f = "check_task Granted ios now"
  from assms(1) have pre: "\<forall>u\<in>set pre. task_id u \<noteq> task_id t"
    and post: "\<forall>u\<in>set post. task_id u \<noteq> task_id t" by simp_all
  have 1: "ledger_for t (foldl ?f a pre) = ledger_for t b"
    "shown_for (task_id t) (foldl ?f a pre) = shown_for (task_id t) b"
    using foldl_others [OF pre, of Granted ios now a] assms(2,3) by simp_all
  note 2 = check_task_respects [OF 1, of Granted ios now]
  note 3 = foldl_others [OF post, of Granted ios now "?f (foldl ?f a pre) t"]
  have "tick Granted ios (pre @ t # post) now a = foldl ?f (?f (foldl ?f a pre) t) post"
    by (simp add: tick_def checkNotifications_def)
  with 2 3 show ?thesis by simp
qed

lemma run_simulates:
  assumes "\<forall>u\<in>set (pre @ post). task_id u \<noteq> task_id t"
    and "ledger_for t a = ledger_for t b"
    and "shown_for (task_id t) a = shown_for (task_id t) b"
  shows "ledger_for t (run_ticks Granted ios (pre @ t # post) nows a)
           = ledger_for t (run_ticks Granted ios [t] nows b) \<and>
         shown_for (task_id t) (run_ticks Granted ios (pre @ t # post) nows a)
           = shown_for (task_id t) (run_ticks Granted ios [t] nows b)"
  using assms(2,3)
proof (induction nows arbitrary: a b)
  case Nil
  then show ?case by (simp add: run_ticks_def)
next
  case (Cons n nows)
  have one: "tick Granted ios [t] n b = check_task Granted ios n b t"
    by (simp add: tick_def checkNotifications_def)
  from tick_simulates [where ios = ios and now = n, OF assms(1) Cons.prems]
  have "ledger_for t (tick Granted ios (pre @ t # post) n a)
      = ledger_for t (tick Granted ios [t] n b)"
    "shown_for (task_id t) (tick Granted ios (pre @ t # post) n a)
      = shown_for (task_id t) (tick Granted ios [t] n b)"
    by (simp_all add: one)
  from Cons.IH [OF this] show ?case by (simp add: run_ticks_def)
qed

section \<open>Ticks inside one firing window\<close>

lemma tick_single: "tick Granted ios [t] now st = check_task Granted ios now st t"
  by (simp add: tick_def checkNotifications_def)

lemma run_ticks_Cons:
  "run_ticks p ios ts (n # nows) st = run_ticks p ios ts nows (tick p ios ts n st)"
  by (simp add: run_ticks_def)

lemma run_ticks_Nil: "run_ticks p ios ts [] st = st"
  by (simp add: run_ticks_def)

lemma run_ticks_append:
  "run_ticks p ios ts (xs @ ys) st = run_ticks p ios ts ys (run_ticks p ios ts xs st)"
  by (simp add: run_ticks_def)

lemma run_in_window_known:
  assumes "l \<in> set NOTIFICATION_LEVELS" "dueUtc t = DueAt due"
    and "\<forall>n\<in>set nows. of_int (minutesLeft due n) = thresholdMinutes l"
    and "notificationKey t l \<in> notified st"
  shows "run_ticks Granted ios [t] nows st = st"
  using assms(3)
proof (induction nows)
  case Nil
  show ?case by (simp add: run_ticks_Nil)
next
  case (Cons n nows)
  from Cons.prems have n: "of_int (minutesLeft due n) = thresholdMinutes l" by simp
  from check_task_at [OF assms(2,1) n] check_level_known [OF assms(4)]
  have "tick Granted ios [t] n st = st" by (simp add: tick_single)
  with Cons show ?case by (simp add: run_ticks_Cons)
qed

lemma step_in_window_fresh:
  assumes "l \<in> set NOTIFICATION_LEVELS" "dueUtc t = DueAt due"
    and "of_int (minutesLeft due n) = thresholdMinutes l"
    and "notificationKey t l \<notin> notified st"
  shows "check_task Granted ios n st t =
         st\<lparr>shown := shown st @ [reminder ios t due l],
            notified := insert (notificationKey t l) (notified st)\<rparr>"
  using check_task_at [OF assms(2,1,3)] check_level_hit [OF assms(1,3,4)] by simp

text \<open>
  Claim C1. Take a task with a due date, a level of the table whose key is not yet in the
  ledger, a list of active tasks in which no other task has the same identifier, and one
  or more ticks at instants that all lie in the firing window of the level. Over the whole
  run exactly one notification is created for the task, the reminder of that level; the
  first tick records the key, and the ticks after the first create nothing for the task.
\<close>

theorem one_dispatch_per_window:
  assumes "l \<in> set NOTIFICATION_LEVELS" "dueUtc t = DueAt due"
    and "\<forall>u\<in>set (pre @ post). task_id u \<noteq> task_id t"
    and "\<forall>n\<in>set (n0 # rest). thresholdMinutes l - 1 < of_int (minutesLeft due n) \<and>
           of_int (minutesLeft due n) \<le> thresholdMinutes l"
    and "notificationKey t l \<notin> notified st"
  shows "shown_for (task_id t) (run_ticks Granted ios (pre @ t # post) (n0 # rest) st)
           = shown_for (task_id t) st @ [reminder ios t due l] \<and>
         notificationKey t l \<in> notified (tick Granted ios (pre @ t # post) n0 st) \<and>
         shown_for (task_id t)
             (run_ticks Granted ios (pre @ t # post) rest (tick Granted ios (pre @ t # post) n0 st))
           = shown_for (task_id t) (tick Granted ios (pre @ t # post) n0 st)"
proof -
  let ?ts = "pre @ t # post"
  let ?k = "notificationKey t l"
  let ?s1 = "tick Granted ios ?ts n0 st"
  have win: "of_int (minutesLeft due n) = thresholdMinutes l" if "n \<in> set (n0 # rest)" for n
    using that assms(4) in_window_iff [OF assms(1), of "minutesLeft due n"] by auto
  then have w0: "of_int (minutesLeft due n0) = thresholdMinutes l"
    and wr: "\<forall>n\<in>set rest. of_int (minutesLeft due n) = thresholdMinutes l"
    by simp_all
  note first = step_in_window_fresh [OF assms(1,2) w0 assms(5), of ios]
  from tick_simulates [OF assms(3) refl refl, of ios n0 st] first
  have l1: "ledger_for t ?s1 = insert ?k (ledger_for t st)"
    and s1: "shown_for (task_id t) ?s1 = shown_for (task_id t) st @ [reminder ios t due l]"
    by (simp_all add: ledger_for_recorded [OF assms(1)] shown_for_def)
  from l1 key_in_ledger_for [OF assms(1), of t ?s1] have k1: "?k \<in> notified ?s1"
    by simp
  from run_simulates [OF assms(3) refl refl, of ios rest ?s1]
    run_in_window_known [OF assms(1,2) wr k1, of ios]
  have later: "shown_for (task_id t) (run_ticks Granted ios ?ts rest ?s1)
      = shown_for (task_id t) ?s1"
    by simp
  from s1 k1 later show ?thesis by (simp add: run_ticks_Cons)
qed

theorem one_dispatch_per_window_witness:
  "NOTIFICATION_LEVELS ! 3 \<in> set NOTIFICATION_LEVELS \<and>
   dueUtc (sample_task ''a'' (DueAt 1850000)) = DueAt 1850000 \<and>
   task_id (sample_task ''b'' (DueAt 7200000)) \<noteq> task_id (sample_task ''a'' (DueAt 1850000)) \<and>
   minutesLeft 1850000 0 = 30 \<and> minutesLeft 1850000 20000 = 30 \<and>
   minutesLeft 1850000 40000 = 30 \<and> thresholdMinutes (NOTIFICATION_LEVELS ! 3) = 30 \<and>
   notificationKey (sample_task ''a'' (DueAt 1850000)) (NOTIFICATION_LEVELS ! 3)
     \<notin> notified initial_state \<and>
   shown_for ''a'' (run_ticks Granted False
       [sample_task ''b'' (DueAt 7200000), sample_task ''a'' (DueAt 1850000)]
       [0, 20000, 40000] initial_state)
     = [reminder False (sample_task ''a'' (DueAt 1850000)) 1850000 (NOTIFICATION_LEVELS ! 3)]"
proof -
  let ?a = "sample_task ''a'' (DueAt 1850000)"
  let ?b = "sample_task ''b'' (DueAt 7200000)"
  let ?l = "NOTIFICATION_LEVELS ! 3"
  have h1: "?l \<in> set NOTIFICATION_LEVELS"
    by (simp add: NOTIFICATION_LEVELS_def)
  have h2: "dueUtc ?a = DueAt 1850000"
    by (simp add: sample_task_def)
  have ne: "task_id ?b \<noteq> task_id ?a"
    by (simp add: sample_task_def)
  then have h3: "\<forall>u\<in>set ([?b] @ []). task_id u \<noteq> task_id ?a"
    by simp
  have m: "minutesLeft 1850000 0 = 30" "minutesLeft 1850000 20000 = 30"
    "minutesLeft 1850000 40000 = 30"
    by (simp_all add: minutesLeft_def)
  have w: "thresholdMinutes ?l = 30"
    by (simp add: NOTIFICATION_LEVELS_def thresholdMinutes_def)
  have h4: "\<forall>n\<in>set (0 # [20000, 40000]).
      thresholdMinutes ?l - 1 < of_int (minutesLeft 1850000 n) \<and>
      of_int (minutesLeft 1850000 n) \<le> thresholdMinutes ?l"
    using m w by simp
  have h5: "notificationKey ?a ?l \<notin> notified initial_state"
    by (simp add: initial_state_def)
  have i: "task_id ?a = ''a''" "shown_for ''a'' initial_state = []"
    by (simp_all add: sample_task_def shown_for_def initial_state_def)
  from one_dispatch_per_window [OF h1 h2 h3 h4 h5, of False] i
  have "shown_for ''a'' (run_ticks Granted False [?b, ?a] [0, 20000, 40000] initial_state)
      = [reminder False ?a 1850000 ?l]"
    by simp
  with h1 h2 ne m w h5 show ?thesis by blast
qed

section \<open>Pruning beyond the cut-off\<close>

lemma key_stays_out:
  assumes "l \<in> set NOTIFICATION_LEVELS" "dueUtc t = DueAt due"
    and "of_int (minutesLeft due now) \<noteq> thresholdMinutes l"
    and "notificationKey t l \<notin> notified st"
  shows "notificationKey t l \<notin> notified (check_task p ios now st t)"
  using assms(2)
proof (cases rule: check_task_cases [where now = now and p = p and ios = ios and st = st])
  case far
  with assms(4) show ?thesis by simp
next
  case (at k)
  with assms(3) have "k \<noteq> l" by auto
  with key_same_task [OF at(1) assms(1)] have ne: "notificationKey t k \<noteq> notificationKey t l"
    by auto
  show ?thesis
  proof (cases "notificationKey t k \<in> notified st")
    case True
    with at(3) check_level_known [OF True] assms(4) show ?thesis by simp
  next
    case nk: False
    from at(3) check_level_fire [OF at(1,2) nk] ne assms(4) show ?thesis by simp
  qed
next
  case idle
  with assms(4) show ?thesis by simp
qed

lemma run_key_stays_out:
  assumes "l \<in> set NOTIFICATION_LEVELS" "dueUtc t = DueAt due"
    and "\<forall>n\<in>set nows. of_int (minutesLeft due n) \<noteq> thresholdMinutes l"
    and "notificationKey t l \<notin> notified st"
  shows "notificationKey t l \<notin> notified (run_ticks Granted ios [t] nows st)"
  using assms(3,4)
proof (induction nows arbitrary: st)
  case Nil
  then show ?case by (simp add: run_ticks_Nil)
next
  case (Cons n nows)
  from Cons.prems have n: "of_int (minutesLeft due n) \<noteq> thresholdMinutes l"
    and r: "\<forall>n\<in>set nows. of_int (minutesLeft due n) \<noteq> thresholdMinutes l"
    by simp_all
  from key_stays_out [OF assms(1,2) n Cons.prems(2), of Granted ios]
  have "notificationKey t l \<notin> notified (tick Granted ios [t] n st)"
    by (simp add: tick_single)
  from Cons.IH [OF r this] show ?case by (simp add: run_ticks_Cons)
qed

lemma no_pruning_within_cutoff:
  assumes "dueUtc t = DueAt due" "minutesLeft due now \<le> 5 * 60"
  shows "notified st \<subseteq> notified (check_task p ios now st t)"
  using assms(1)
proof (cases rule: check_task_cases [where now = now and p = p and ios = ios and st = st])
  case far
  with assms(2) show ?thesis by simp
next
  case (at k)
  show ?thesis
  proof (cases "notificationKey t k \<in> notified st")
    case True
    with at(3) check_level_known [OF True] show ?thesis by simp
  next
    case nk: False
    from at(3) check_level_fire [OF at(1,2) nk] show ?thesis by auto
  qed
next
  case idle
  then show ?thesis by simp
qed

text \<open>
  Claim C6. When the minutes left of a task exceed 300, the tick removes the keys of the
  task for all levels of the table, whatever the ledger held, and creates no notification
  for it; the cut-off is the constant \<open>5 * 60\<close> of the source: at 300 minutes or less
  the step for the task removes nothing from the ledger. After such a tick, let the due
  date of the task change, and let ticks follow in which the task is in the window of
  level \<open>l\<close> only at the last one: that last tick creates the reminder of level \<open>l\<close>
  again, also when the key of \<open>l\<close> was in the ledger before the due date was pushed.
\<close>

theorem push_past_cutoff_resets:
  assumes "l \<in> set NOTIFICATION_LEVELS" "dueUtc t = DueAt due1"
    and "minutesLeft due1 now1 > 5 * 60"
    and "\<forall>u\<in>set (pre1 @ post1). task_id u \<noteq> task_id t"
    and "\<forall>u\<in>set (pre2 @ post2). task_id u \<noteq> task_id t"
    and "\<forall>n\<in>set mids. of_int (minutesLeft due2 n) \<noteq> thresholdMinutes l"
    and "thresholdMinutes l - 1 < of_int (minutesLeft due2 now2) \<and>
         of_int (minutesLeft due2 now2) \<le> thresholdMinutes l"
  shows "(\<forall>k\<in>set NOTIFICATION_LEVELS.
            notificationKey t k \<notin> notified (tick Granted ios (pre1 @ t # post1) now1 st)) \<and>
         shown_for (task_id t) (tick Granted ios (pre1 @ t # post1) now1 st)
           = shown_for (task_id t) st \<and>
         shown_for (task_id t)
           (tick Granted ios (pre2 @ t\<lparr>dueUtc := DueAt due2\<rparr> # post2) now2
             (run_ticks Granted ios (pre2 @ t\<lparr>dueUtc := DueAt due2\<rparr> # post2) mids
               (tick Granted ios (pre1 @ t # post1) now1 st)))
           = shown_for (task_id t)
               (run_ticks Granted ios (pre2 @ t\<lparr>dueUtc := DueAt due2\<rparr> # post2) mids
                 (tick Granted ios (pre1 @ t # post1) now1 st))
             @ [reminder ios (t\<lparr>dueUtc := DueAt due2\<rparr>) due2 l] \<and>
         (minutesLeft due1 now0 \<le> 5 * 60 \<longrightarrow>
            notified st0 \<subseteq> notified (check_task Granted ios now0 st0 t))"
proof -
  let ?t2 = "t\<lparr>dueUtc := DueAt due2\<rparr>"
  let ?s1 = "tick Granted ios (pre1 @ t # post1) now1 st"
  let ?s2 = "run_ticks Granted ios (pre2 @ ?t2 # post2) mids ?s1"
  have id2: "task_id ?t2 = task_id t" by simp
  have key2: "notificationKey ?t2 k = notificationKey t k" for k
    by (simp add: notificationKey_def)
  have led2: "ledger_for ?t2 s = ledger_for t s" for s
    by (simp add: ledger_for_def notificationKey_def)
  have d2: "dueUtc ?t2 = DueAt due2" by simp
  from assms(3) have far: "minutesLeft due1 now1 > 300" by simp
  from tick_simulates [OF assms(4) refl refl, of ios now1 st]
    check_task_far [OF assms(2) far, of Granted ios st]
  have l1: "ledger_for t ?s1 = {}"
    and sh1: "shown_for (task_id t) ?s1 = shown_for (task_id t) st"
    by simp_all
  have A: "\<forall>k\<in>set NOTIFICATION_LEVELS. notificationKey t k \<notin> notified ?s1"
  proof
    fix k assume "k \<in> set NOTIFICATION_LEVELS"
    from key_in_ledger_for [OF this, of t ?s1] l1 show "notificationKey t k \<notin> notified ?s1"
      by simp
  qed
  from A assms(1) have out1: "notificationKey ?t2 l \<notin> notified ?s1"
    by (simp add: key2)
  from assms(5) have o2: "\<forall>u\<in>set (pre2 @ post2). task_id u \<noteq> task_id ?t2"
    by simp
  from run_key_stays_out [OF assms(1) d2 assms(6) out1, of ios]
  have "notificationKey ?t2 l \<notin> ledger_for ?t2 (run_ticks Granted ios [?t2] mids ?s1)"
    by (simp add: key_in_ledger_for [OF assms(1)])
  with run_simulates [OF o2 refl refl, of ios mids ?s1]
  have "notificationKey ?t2 l \<notin> ledger_for ?t2 ?s2" by simp
  with key_in_ledger_for [OF assms(1), of ?t2 ?s2]
  have out2: "notificationKey ?t2 l \<notin> notified ?s2" by simp
  from assms(7) in_window_iff [OF assms(1), of "minutesLeft due2 now2"]
  have w: "of_int (minutesLeft due2 now2) = thresholdMinutes l" by simp
  from tick_simulates [OF o2 refl refl, of ios now2 ?s2]
    step_in_window_fresh [OF assms(1) d2 w out2, of ios]
  have "shown_for (task_id t) (tick Granted ios (pre2 @ ?t2 # post2) now2 ?s2)
      = shown_for (task_id t) ?s2 @ [reminder ios ?t2 due2 l]"
    by (simp add: shown_for_def)
  moreover have "minutesLeft due1 now0 \<le> 5 * 60 \<longrightarrow>
      notified st0 \<subseteq> notified (check_task Granted ios now0 st0 t)"
    using no_pruning_within_cutoff [OF assms(2)] by blast
  ultimately show ?thesis using A sh1 by blast
qed

theorem push_past_cutoff_resets_witness:
  "NOTIFICATION_LEVELS ! 1 \<in> set NOTIFICATION_LEVELS \<and>
   dueUtc (sample_task ''a'' (DueAt 36000000)) = DueAt 36000000 \<and>
   minutesLeft 36000000 0 > 5 * 60 \<and>
   task_id (sample_task ''b'' Absent) \<noteq> task_id (sample_task ''a'' (DueAt 36000000)) \<and>
   thresholdMinutes (NOTIFICATION_LEVELS ! 1) = 120 \<and> minutesLeft 7260000 60000 = 120 \<and>
   notificationKey (sample_task ''a'' (DueAt 36000000)) (NOTIFICATION_LEVELS ! 1) = ''task-a-2'' \<and>
   ''task-a-2'' \<notin> notified (tick Granted False
       [sample_task ''b'' Absent, sample_task ''a'' (DueAt 36000000)] 0
       \<lparr>notified = {''task-a-2'', ''task-a-0.5''}, shown = []\<rparr>) \<and>
   shown_for ''a''
     (tick Granted False [sample_task ''a'' (DueAt 7260000), sample_task ''b'' Absent] 60000
       (tick Granted False [sample_task ''b'' Absent, sample_task ''a'' (DueAt 36000000)] 0
         \<lparr>notified = {''task-a-2'', ''task-a-0.5''}, shown = []\<rparr>))
     = [reminder False (sample_task ''a'' (DueAt 7260000)) 7260000 (NOTIFICATION_LEVELS ! 1)]"
proof -
  let ?a = "sample_task ''a'' (DueAt 36000000)"
  let ?b = "sample_task ''b'' Absent"
  let ?l = "NOTIFICATION_LEVELS ! 1"
  let ?st = "\<lparr>notified = {''task-a-2'', ''task-a-0.5''}, shown = []\<rparr>"
  have h1: "?l \<in> set NOTIFICATION_LEVELS"
    by (simp add: NOTIFICATION_LEVELS_def)
  have h2: "dueUtc ?a = DueAt 36000000"
    by (simp add: sample_task_def)
  have h3: "minutesLeft 36000000 0 > 5 * 60"
    by (simp add: minutesLeft_def)
  have ne: "task_id ?b \<noteq> task_id ?a"
    by (simp add: sample_task_def)
  then have h4: "\<forall>u\<in>set ([?b] @ []). task_id u \<noteq> task_id ?a"
    and h5: "\<forall>u\<in>set ([] @ [?b]). task_id u \<noteq> task_id ?a"
    by simp_all
  have h6: "\<forall>n\<in>set []. of_int (minutesLeft 7260000 n) \<noteq> thresholdMinutes ?l"
    by simp
  have w: "thresholdMinutes ?l = 120"
    by (simp add: NOTIFICATION_LEVELS_def thresholdMinutes_def)
  have m: "minutesLeft 7260000 60000 = 120"
    by (simp add: minutesLeft_def)
  have h7: "thresholdMinutes ?l - 1 < of_int (minutesLeft 7260000 60000) \<and>
      of_int (minutesLeft 7260000 60000) \<le> thresholdMinutes ?l"
    using w m by simp
  have k: "notificationKey ?a ?l = ''task-a-2''"
    by (simp add: notificationKey_def sample_task_def NOTIFICATION_LEVELS_def)
  have u: "?a\<lparr>dueUtc := DueAt 7260000\<rparr> = sample_task ''a'' (DueAt 7260000)"
    "task_id ?a = ''a''" "shown_for ''a'' ?st = []"
    by (simp_all add: sample_task_def shown_for_def)
  note r = push_past_cutoff_resets [OF h1 h2 h3 h4 h5 h6 h7, of False ?st]
  from r h1 k have a: "''task-a-2'' \<notin> notified (tick Granted False [?b, ?a] 0 ?st)"
    by (metis append_Cons append_Nil)
  from r u have b: "shown_for ''a''
     (tick Granted False [sample_task ''a'' (DueAt 7260000), ?b] 60000
       (tick Granted False [?b, ?a] 0 ?st))
     = [reminder False (sample_task ''a'' (DueAt 7260000)) 7260000 ?l]"
    by (simp add: run_ticks_Nil)
  from h1 h2 h3 ne w m k a b show ?thesis by blast
qed

section \<open>Counting down minute by minute\<close>

lemma level_threshold_int:
  assumes "l \<in> set NOTIFICATION_LEVELS"
  shows "\<exists>w::int. thresholdMinutes l = of_int w \<and> 10 \<le> w \<and> w \<le> 300"
proof -
  from level_threshold [OF assms]
  consider "thresholdMinutes l = 300" | "thresholdMinutes l = 120" | "thresholdMinutes l = 60"
    | "thresholdMinutes l = 30" | "thresholdMinutes l = 10"
    by auto
  then show ?thesis
  proof cases
    case 1 then show ?thesis by (intro exI [of _ 300]) simp
  next
    case 2 then show ?thesis by (intro exI [of _ 120]) simp
  next
    case 3 then show ?thesis by (intro exI [of _ 60]) simp
  next
    case 4 then show ?thesis by (intro exI [of _ 30]) simp
  next
    case 5 then show ?thesis by (intro exI [of _ 10]) simp
  qed
qed

lemma above_pred_iff:
  assumes "l \<in> set NOTIFICATION_LEVELS"
  shows "(of_int (m - 1) < thresholdMinutes l)
         = (of_int m < thresholdMinutes l \<or> of_int m = thresholdMinutes l)"
proof -
  from level_threshold_int [OF assms] obtain w :: int where w: "thresholdMinutes l = of_int w"
    by blast
  have "(m - 1 < w) = (m < w \<or> m = w)" by auto
  then show ?thesis unfolding w of_int_less_iff of_int_eq_iff .
qed

lemma levels_descending:
  "sorted_wrt (\<lambda>a b. thresholdMinutes b < thresholdMinutes a) NOTIFICATION_LEVELS"
  by (simp add: NOTIFICATION_LEVELS_def thresholdMinutes_def)

lemma filter_levels_step:
  assumes "l \<in> set NOTIFICATION_LEVELS" "of_int m = thresholdMinutes l"
  shows "filter (\<lambda>k. of_int (m - 1) < thresholdMinutes k) NOTIFICATION_LEVELS
         = filter (\<lambda>k. of_int m < thresholdMinutes k) NOTIFICATION_LEVELS @ [l]"
proof -
  from assms(1) obtain xs ys where sp: "NOTIFICATION_LEVELS = xs @ l # ys"
    by (auto dest: split_list)
  from levels_descending have xs: "\<forall>x\<in>set xs. thresholdMinutes l < thresholdMinutes x"
    and ys: "\<forall>y\<in>set ys. thresholdMinutes y < thresholdMinutes l"
    unfolding sp by (auto simp: sorted_wrt_append)
  have sub: "set xs \<subseteq> set NOTIFICATION_LEVELS" "set ys \<subseteq> set NOTIFICATION_LEVELS"
    unfolding sp by auto
  have p: "(of_int (m - 1) < thresholdMinutes k)
      = (thresholdMinutes l < thresholdMinutes k \<or> thresholdMinutes l = thresholdMinutes k)"
    if "k \<in> set NOTIFICATION_LEVELS" for k
    using above_pred_iff [OF that, of m] assms(2) by simp
  have px: "\<forall>x\<in>set xs. of_int (m - 1) < thresholdMinutes x"
    using xs sub(1) p by blast
  have py: "\<forall>y\<in>set ys. \<not> of_int (m - 1) < thresholdMinutes y"
  proof
    fix y assume y: "y \<in> set ys"
    with sub(2) have "y \<in> set NOTIFICATION_LEVELS" by blast
    from p [OF this] ys y show "\<not> of_int (m - 1) < thresholdMinutes y"
      by (metis less_irrefl less_trans)
  qed
  have qx: "\<forall>x\<in>set xs. of_int m < thresholdMinutes x"
    using xs unfolding assms(2) by blast
  have qy: "\<forall>y\<in>set ys. \<not> of_int m < thresholdMinutes y"
    using ys unfolding assms(2) by (metis less_irrefl less_trans)
  have 1: "filter (\<lambda>k. of_int (m - 1) < thresholdMinutes k) xs = xs"
    using px by (intro filter_True) blast
  have 2: "filter (\<lambda>k. of_int (m - 1) < thresholdMinutes k) ys = []"
    using py by (intro filter_False) blast
  have 3: "filter (\<lambda>k. of_int m < thresholdMinutes k) xs = xs"
    using qx by (intro filter_True) blast
  have 4: "filter (\<lambda>k. of_int m < thresholdMinutes k) ys = []"
    using qy by (intro filter_False) blast
  have 5: "of_int (m - 1) < thresholdMinutes l"
    using p [OF assms(1)] by blast
  have 6: "\<not> of_int m < thresholdMinutes l"
    unfolding assms(2) by blast
  show ?thesis unfolding sp filter_append filter.simps 1 2 3 4 using 5 6 by simp
qed

lemma minutes_at_tick:
  "minutesLeft (start + 21600000) (start + int k * 60000) = 360 - int k"
proof -
  have "start + 21600000 - (start + int k * 60000) = (360 - int k) * 60000"
    by (simp add: algebra_simps)
  then show ?thesis by (simp add: minutesLeft_def)
qed

lemma minute_ticks_Suc:
  "minute_ticks start (Suc K) = minute_ticks start K @ [start + int K * 60000]"
  by (simp add: minute_ticks_def)

lemma threshold_inj:
  "l \<in> set NOTIFICATION_LEVELS \<Longrightarrow> k \<in> set NOTIFICATION_LEVELS \<Longrightarrow>
   thresholdMinutes l = thresholdMinutes k \<Longrightarrow> l = k"
  using distinct_thresholds by (auto simp: distinct_map dest: inj_onD)

lemma none_above_300:
  assumes "300 \<le> m"
  shows "filter (\<lambda>l. of_int m < thresholdMinutes l) NOTIFICATION_LEVELS = []"
proof (intro filter_False ballI)
  fix l assume "l \<in> set NOTIFICATION_LEVELS"
  from level_threshold_int [OF this] obtain w :: int
    where w: "thresholdMinutes l = of_int w" "w \<le> 300" by blast
  from w(2) assms have "\<not> m < w" by simp
  then show "\<not> of_int m < thresholdMinutes l" unfolding w(1) of_int_less_iff .
qed

lemma countdown_step:
  assumes d: "dueUtc t = DueAt due" and m: "minutesLeft due now = m"
    and sh: "shown s = base @ map (reminder ios t due)
        (filter (\<lambda>l. of_int m < thresholdMinutes l) NOTIFICATION_LEVELS)"
    and led: "\<forall>l\<in>set NOTIFICATION_LEVELS.
        (notificationKey t l \<in> notified s) = (of_int m < thresholdMinutes l)"
  shows "shown (check_task Granted ios now s t) = base @ map (reminder ios t due)
        (filter (\<lambda>l. of_int (m - 1) < thresholdMinutes l) NOTIFICATION_LEVELS) \<and>
      (\<forall>l\<in>set NOTIFICATION_LEVELS.
        (notificationKey t l \<in> notified (check_task Granted ios now s t))
          = (of_int (m - 1) < thresholdMinutes l))"
  using d
proof (cases rule: check_task_cases [where now = now and p = Granted and ios = ios and st = s])
  case far
  from far(1) m have "300 \<le> m" "300 \<le> m - 1" by simp_all
  from none_above_300 [OF this(1)] none_above_300 [OF this(2)]
  have f: "filter (\<lambda>l. of_int m < thresholdMinutes l) NOTIFICATION_LEVELS = []"
    "filter (\<lambda>l. of_int (m - 1) < thresholdMinutes l) NOTIFICATION_LEVELS = []"
    by blast+
  have "\<forall>l\<in>set NOTIFICATION_LEVELS. \<not> of_int (m - 1) < thresholdMinutes l"
    using f(2) by (simp only: filter_empty_conv) 
  with far(2) sh f show ?thesis by simp
next
  case (at l)
  from at(2) m have eq: "of_int m = thresholdMinutes l" by simp
  from led at(1) eq have fresh: "notificationKey t l \<notin> notified s" by simp
  from at(3) check_level_hit [OF at(1,2) fresh]
  have st: "check_task Granted ios now s t = s\<lparr>shown := shown s @ [reminder ios t due l],
      notified := insert (notificationKey t l) (notified s)\<rparr>"
    by simp
  have "\<forall>k\<in>set NOTIFICATION_LEVELS.
      (notificationKey t k \<in> insert (notificationKey t l) (notified s))
        = (of_int (m - 1) < thresholdMinutes k)"
  proof
    fix k assume k: "k \<in> set NOTIFICATION_LEVELS"
    have "(notificationKey t k = notificationKey t l) = (of_int m = thresholdMinutes k)"
      using key_same_task [OF k at(1)] threshold_inj [OF k at(1)] eq by metis
    with led k above_pred_iff [OF k, of m]
    show "(notificationKey t k \<in> insert (notificationKey t l) (notified s))
        = (of_int (m - 1) < thresholdMinutes k)"
      by blast
  qed
  with st sh filter_levels_step [OF at(1) eq] show ?thesis by simp
next
  case idle
  from idle(2) m have ne: "\<forall>l\<in>set NOTIFICATION_LEVELS. of_int m \<noteq> thresholdMinutes l"
    by simp
  have same: "(of_int (m - 1) < thresholdMinutes l) = (of_int m < thresholdMinutes l)"
    if "l \<in> set NOTIFICATION_LEVELS" for l
    using above_pred_iff [OF that, of m] ne that by blast
  then have "filter (\<lambda>l. of_int (m - 1) < thresholdMinutes l) NOTIFICATION_LEVELS
      = filter (\<lambda>l. of_int m < thresholdMinutes l) NOTIFICATION_LEVELS"
    by (intro filter_cong refl)
  with idle(3) sh led same show ?thesis by simp
qed

lemma countdown_invariant:
  assumes d: "dueUtc t = DueAt (start + 21600000)"
  shows "shown (run_ticks Granted ios [t] (minute_ticks start (Suc K)) st)
      = shown st @ map (reminder ios t (start + 21600000))
          (filter (\<lambda>l. of_int (359 - int K) < thresholdMinutes l) NOTIFICATION_LEVELS) \<and>
    (\<forall>l\<in>set NOTIFICATION_LEVELS.
      (notificationKey t l \<in> notified (run_ticks Granted ios [t] (minute_ticks start (Suc K)) st))
        = (of_int (359 - int K) < thresholdMinutes l))"
proof (induction K)
  case 0
  have run: "run_ticks Granted ios [t] (minute_ticks start (Suc 0)) st
      = check_task Granted ios start st t"
    by (simp add: minute_ticks_def run_ticks_Cons run_ticks_Nil tick_single)
  from minutes_at_tick [of start 0] have "minutesLeft (start + 21600000) start > 300"
    by simp
  note far = check_task_far [OF d this, of Granted ios st]
  have f: "filter (\<lambda>l. of_int (359 - int 0) < thresholdMinutes l) NOTIFICATION_LEVELS = []"
    by (rule none_above_300) simp
  then have "\<forall>l\<in>set NOTIFICATION_LEVELS. \<not> of_int (359 - int 0) < thresholdMinutes l"
    by (simp only: filter_empty_conv)
  with far f show ?case unfolding run by simp
next
  case (Suc K)
  let ?s = "run_ticks Granted ios [t] (minute_ticks start (Suc K)) st"
  have run: "run_ticks Granted ios [t] (minute_ticks start (Suc (Suc K))) st
      = check_task Granted ios (start + int (Suc K) * 60000) ?s t"
    unfolding minute_ticks_Suc [of start "Suc K"] run_ticks_append
    by (simp add: run_ticks_Cons run_ticks_Nil tick_single)
  have m: "minutesLeft (start + 21600000) (start + int (Suc K) * 60000) = 359 - int K"
    unfolding minutes_at_tick by simp
  have p: "359 - int K - 1 = 359 - int (Suc K)" by simp
  from Suc.IH have sh: "shown ?s = shown st @ map (reminder ios t (start + 21600000))
          (filter (\<lambda>l. of_int (359 - int K) < thresholdMinutes l) NOTIFICATION_LEVELS)"
    and led: "\<forall>l\<in>set NOTIFICATION_LEVELS.
      (notificationKey t l \<in> notified ?s) = (of_int (359 - int K) < thresholdMinutes l)"
    by blast+
  from countdown_step [OF d m sh led] show ?case unfolding run p .
qed

text \<open>
  Claim C3. A task is due six hours after \<open>start\<close>, no other active task has its
  identifier, and ticks run at \<open>start\<close> and then minute by minute, at least down to ten
  minutes left (351 ticks or more, so also up to and beyond the due time). Whatever the
  state before, the notifications created for the task over the run are the reminders
  of the levels of the table, one for each, five in all, in the order of the table:
  5 hours, 2 hours, 1 hour, 30 minutes, 10 minutes, that is by falling threshold.
\<close>

theorem six_hour_countdown:
  assumes "dueUtc t = DueAt (start + 6 * 60 * 60 * 1000)"
    and "\<forall>u\<in>set (pre @ post). task_id u \<noteq> task_id t"
    and "351 \<le> N"
  shows "shown_for (task_id t) (run_ticks Granted ios (pre @ t # post) (minute_ticks start N) st)
      = shown_for (task_id t) st
        @ map (reminder ios t (start + 6 * 60 * 60 * 1000)) NOTIFICATION_LEVELS \<and>
    length (map (reminder ios t (start + 6 * 60 * 60 * 1000)) NOTIFICATION_LEVELS) = 5 \<and>
    map n_data_level (map (reminder ios t (start + 6 * 60 * 60 * 1000)) NOTIFICATION_LEVELS)
      = [''5 hours'', ''2 hours'', ''1 hour'', ''30 minutes'', ''10 minutes''] \<and>
    map thresholdMinutes NOTIFICATION_LEVELS = [300, 120, 60, 30, 10]"
proof -
  let ?due = "start + 21600000"
  from assms(1) have d: "dueUtc t = DueAt ?due" by simp
  from assms(3) obtain K where N: "N = Suc K" and K: "350 \<le> K"
    by (cases N) simp_all
  let ?s = "run_ticks Granted ios [t] (minute_ticks start N) st"
  have all: "filter (\<lambda>l. of_int (359 - int K) < thresholdMinutes l) NOTIFICATION_LEVELS
      = NOTIFICATION_LEVELS"
  proof (intro filter_True ballI)
    fix l assume "l \<in> set NOTIFICATION_LEVELS"
    from level_threshold_int [OF this] obtain w :: int
      where w: "thresholdMinutes l = of_int w" "10 \<le> w" by blast
    from w(2) K have "359 - int K < w" by simp
    then show "of_int (359 - int K) < thresholdMinutes l" unfolding w(1) of_int_less_iff .
  qed
  from countdown_invariant [OF d, where ios = ios and K = K and st = st] all
  have sh: "shown ?s = shown st @ map (reminder ios t ?due) NOTIFICATION_LEVELS"
    unfolding N by simp
  have "filter (\<lambda>n. n_data_taskId n = task_id t) (map (reminder ios t ?due) NOTIFICATION_LEVELS)
      = map (reminder ios t ?due) NOTIFICATION_LEVELS"
    by (intro filter_True) auto
  with sh have "shown_for (task_id t) ?s
      = shown_for (task_id t) st @ map (reminder ios t ?due) NOTIFICATION_LEVELS"
    by (simp add: shown_for_def)
  with run_simulates [OF assms(2) refl refl, where ios = ios and nows = "minute_ticks start N" and a = st]
  have 1: "shown_for (task_id t) (run_ticks Granted ios (pre @ t # post) (minute_ticks start N) st)
      = shown_for (task_id t) st @ map (reminder ios t ?due) NOTIFICATION_LEVELS"
    by simp
  have 2: "length (map (reminder ios t ?due) NOTIFICATION_LEVELS) = 5"
    by (simp add: NOTIFICATION_LEVELS_def)
  have 3: "map n_data_level (map (reminder ios t ?due) NOTIFICATION_LEVELS)
      = [''5 hours'', ''2 hours'', ''1 hour'', ''30 minutes'', ''10 minutes'']"
    by (simp add: NOTIFICATION_LEVELS_def)
  from 1 2 3 threshold_values show ?thesis by simp
qed

theorem six_hour_countdown_witness:
  "dueUtc (sample_task ''a'' (DueAt 21600000)) = DueAt (0 + 6 * 60 * 60 * 1000) \<and>
   task_id (sample_task ''b'' (DueAt 1800000)) \<noteq> task_id (sample_task ''a'' (DueAt 21600000)) \<and>
   (351::nat) \<le> 361 \<and>
   map n_tag (shown_for ''a'' (run_ticks Granted False
       [sample_task ''b'' (DueAt 1800000), sample_task ''a'' (DueAt 21600000)]
       (minute_ticks 0 361) initial_state))
     = [''task-a-5'', ''task-a-2'', ''task-a-1'', ''task-a-0.5'', ''task-a-0.16666666666666666'']"
proof -
  let ?a = "sample_task ''a'' (DueAt 21600000)"
  let ?b = "sample_task ''b'' (DueAt 1800000)"
  have h1: "dueUtc ?a = DueAt (0 + 6 * 60 * 60 * 1000)"
    by (simp add: sample_task_def)
  have ne: "task_id ?b \<noteq> task_id ?a"
    by (simp add: sample_task_def)
  then have h2: "\<forall>u\<in>set ([?b] @ []). task_id u \<noteq> task_id ?a"
    by simp
  have h3: "(351::nat) \<le> 361" by simp
  have i: "task_id ?a = ''a''" "shown_for ''a'' initial_state = []"
    by (simp_all add: sample_task_def shown_for_def initial_state_def)
  from six_hour_countdown [OF h1 h2 h3, where ios = False and st = initial_state] i
  have "shown_for ''a'' (run_ticks Granted False [?b, ?a] (minute_ticks 0 361) initial_state)
      = map (reminder False ?a 21600000) NOTIFICATION_LEVELS"
    by simp
  then have "map n_tag (shown_for ''a'' (run_ticks Granted False [?b, ?a]
      (minute_ticks 0 361) initial_state))
      = map (notificationKey ?a) NOTIFICATION_LEVELS"
    by simp
  also have "\<dots> = [''task-a-5'', ''task-a-2'', ''task-a-1'', ''task-a-0.5'',
      ''task-a-0.16666666666666666'']"
    by (simp add: NOTIFICATION_LEVELS_def notificationKey_def sample_task_def)
  finally show ?thesis using h1 ne h3 by blast
qed

section \<open>The order of pruning and firing\<close>

lemma key_by_id: "notificationKey t l = ''task-'' @ task_id t @ ''-'' @ hours_text l"
  by (simp add: notificationKey_def)

lemma key_text_inj:
  assumes "l \<in> set NOTIFICATION_LEVELS" "k \<in> set NOTIFICATION_LEVELS"
    and "''task-'' @ i @ ''-'' @ hours_text l = ''task-'' @ j @ ''-'' @ hours_text k"
  shows "i = j \<and> l = k"
proof -
  from assms(3) level_text_no_dash [OF assms(1)] level_text_no_dash [OF assms(2)]
  have "i = j \<and> hours_text l = hours_text k"
    by (auto dest: split_last_sep)
  with level_by_text [OF assms(1,2)] show ?thesis by blast
qed

lemma levels_as_thresholds:
  "map (\<lambda>l. (thresholdMinutes l, label l)) NOTIFICATION_LEVELS
   = map (\<lambda>th. (of_int (fst th), snd th)) spec_thresholds"
  by (simp add: NOTIFICATION_LEVELS_def thresholdMinutes_def spec_thresholds_def)

lemma level_has_threshold:
  assumes "l \<in> set NOTIFICATION_LEVELS"
  shows "\<exists>W. thresholdMinutes l = of_int W \<and> (W, label l) \<in> set spec_thresholds"
proof -
  from assms have "(thresholdMinutes l, label l)
      \<in> set (map (\<lambda>l. (thresholdMinutes l, label l)) NOTIFICATION_LEVELS)"
    by (simp add: image_iff) blast
  then have "(thresholdMinutes l, label l)
      \<in> set (map (\<lambda>th. (rat_of_int (fst th), snd th)) spec_thresholds)"
    unfolding levels_as_thresholds .
  then show ?thesis by auto
qed

lemma threshold_has_level:
  assumes "th \<in> set spec_thresholds"
  shows "\<exists>l\<in>set NOTIFICATION_LEVELS. thresholdMinutes l = of_int (fst th) \<and> label l = snd th"
proof -
  from assms have "(rat_of_int (fst th), snd th)
      \<in> set (map (\<lambda>th. (rat_of_int (fst th), snd th)) spec_thresholds)"
    by (simp add: image_iff) blast
  then have "(rat_of_int (fst th), snd th)
      \<in> set (map (\<lambda>l. (thresholdMinutes l, label l)) NOTIFICATION_LEVELS)"
    unfolding levels_as_thresholds .
  then show ?thesis by auto
qed

lemma distinct_spec_windows: "distinct (map fst spec_thresholds)"
  by (simp add: spec_thresholds_def)

lemma spec_in_window_eq: "spec_in_window W m = (m = W)"
  by (auto simp: spec_in_window_def)

lemma spec_fire_miss: "fst th \<noteq> m \<Longrightarrow> spec_fire i d m S th = S"
  by (simp add: spec_fire_def spec_in_window_eq)

lemma foldl_spec_fire_none:
  "\<forall>th\<in>set ths. fst th \<noteq> m \<Longrightarrow> foldl (spec_fire i d m) S ths = S"
  by (induction ths arbitrary: S) (simp_all add: spec_fire_miss)

lemma foldl_spec_fire_one:
  assumes "distinct (map fst ths)" "th \<in> set ths" "fst th = m"
  shows "foldl (spec_fire i d m) S ths = spec_fire i d m S th"
proof -
  from assms(2) obtain xs ys where sp: "ths = xs @ th # ys"
    by (auto dest: split_list)
  have xs: "\<forall>x\<in>set xs. fst x \<noteq> m" and ys: "\<forall>y\<in>set ys. fst y \<noteq> m"
    using assms(1,3) unfolding sp by (auto simp: image_iff)
  have "foldl (spec_fire i d m) S xs = S"
    using xs by (rule foldl_spec_fire_none)
  moreover have "foldl (spec_fire i d m) s ys = s" for s
    using ys by (rule foldl_spec_fire_none)
  ultimately show ?thesis by (simp add: sp)
qed

lemma abs_ledger_shown [simp]: "abs_ledger (st\<lparr>shown := xs\<rparr>) = abs_ledger st"
  by (simp add: abs_ledger_def)

lemma abs_ledger_pruned:
  "abs_ledger (st\<lparr>notified := notified st - notificationKey t ` set NOTIFICATION_LEVELS\<rparr>)
   = Set.filter (\<lambda>e. fst e \<noteq> task_id t) (abs_ledger st)"
proof (intro set_eqI iffI)
  fix e
  assume "e \<in> abs_ledger (st\<lparr>notified :=
      notified st - notificationKey t ` set NOTIFICATION_LEVELS\<rparr>)"
  then obtain l where l: "l \<in> set NOTIFICATION_LEVELS" "thresholdMinutes l = of_int (snd e)"
    "''task-'' @ fst e @ ''-'' @ hours_text l \<in> notified st"
    "''task-'' @ fst e @ ''-'' @ hours_text l \<notin> notificationKey t ` set NOTIFICATION_LEVELS"
    by (auto simp: abs_ledger_def)
  from l(1,4) have "fst e \<noteq> task_id t"
    by (auto simp: key_by_id)
  with l(1,2,3) show "e \<in> Set.filter (\<lambda>e. fst e \<noteq> task_id t) (abs_ledger st)"
    by (auto simp: abs_ledger_def)
next
  fix e
  assume "e \<in> Set.filter (\<lambda>e. fst e \<noteq> task_id t) (abs_ledger st)"
  then obtain l where ne: "fst e \<noteq> task_id t" and l: "l \<in> set NOTIFICATION_LEVELS"
    "thresholdMinutes l = of_int (snd e)"
    "''task-'' @ fst e @ ''-'' @ hours_text l \<in> notified st"
    by (auto simp: abs_ledger_def)
  have "''task-'' @ fst e @ ''-'' @ hours_text l \<notin> notificationKey t ` set NOTIFICATION_LEVELS"
  proof
    assume "''task-'' @ fst e @ ''-'' @ hours_text l \<in> notificationKey t ` set NOTIFICATION_LEVELS"
    then obtain k where "k \<in> set NOTIFICATION_LEVELS"
      "''task-'' @ fst e @ ''-'' @ hours_text l = ''task-'' @ task_id t @ ''-'' @ hours_text k"
      by (auto simp: key_by_id)
    from key_text_inj [OF l(1) this] ne show False by blast
  qed
  with l show "e \<in> abs_ledger (st\<lparr>notified :=
      notified st - notificationKey t ` set NOTIFICATION_LEVELS\<rparr>)"
    by (cases e) (auto simp: abs_ledger_def)
qed

lemma abs_ledger_has:
  assumes "l \<in> set NOTIFICATION_LEVELS" "thresholdMinutes l = of_int W"
  shows "((task_id t, W) \<in> abs_ledger st) = (notificationKey t l \<in> notified st)"
proof
  assume "(task_id t, W) \<in> abs_ledger st"
  then obtain k where k: "k \<in> set NOTIFICATION_LEVELS" "thresholdMinutes k = of_int W"
    "''task-'' @ task_id t @ ''-'' @ hours_text k \<in> notified st"
    by (auto simp: abs_ledger_def)
  from threshold_inj [OF k(1) assms(1)] k(2) assms(2) have "k = l" by simp
  with k(3) show "notificationKey t l \<in> notified st" by (simp add: key_by_id)
next
  assume "notificationKey t l \<in> notified st"
  with assms show "(task_id t, W) \<in> abs_ledger st"
    by (auto simp: abs_ledger_def key_by_id)
qed

lemma abs_ledger_recorded:
  assumes "l \<in> set NOTIFICATION_LEVELS" "thresholdMinutes l = of_int W"
  shows "abs_ledger (st\<lparr>shown := xs, notified := insert (notificationKey t l) (notified st)\<rparr>)
         = insert (task_id t, W) (abs_ledger st)"
proof (intro set_eqI iffI)
  fix e
  assume "e \<in> abs_ledger (st\<lparr>shown := xs,
      notified := insert (notificationKey t l) (notified st)\<rparr>)"
  then obtain k where k: "k \<in> set NOTIFICATION_LEVELS" "thresholdMinutes k = of_int (snd e)"
    "''task-'' @ fst e @ ''-'' @ hours_text k = notificationKey t l \<or>
     ''task-'' @ fst e @ ''-'' @ hours_text k \<in> notified st"
    by (auto simp: abs_ledger_def)
  from k(3) show "e \<in> insert (task_id t, W) (abs_ledger st)"
  proof
    assume "''task-'' @ fst e @ ''-'' @ hours_text k = notificationKey t l"
    then have "''task-'' @ fst e @ ''-'' @ hours_text k
        = ''task-'' @ task_id t @ ''-'' @ hours_text l"
      by (simp add: key_by_id)
    from key_text_inj [OF k(1) assms(1) this] k(2) assms(2) have "e = (task_id t, W)"
      by (cases e) simp
    then show ?thesis by simp
  next
    assume "''task-'' @ fst e @ ''-'' @ hours_text k \<in> notified st"
    with k(1,2) have "e \<in> abs_ledger st"
      by (cases e) (auto simp: abs_ledger_def)
    then show ?thesis by simp
  qed
next
  fix e
  assume "e \<in> insert (task_id t, W) (abs_ledger st)"
  then show "e \<in> abs_ledger (st\<lparr>shown := xs,
      notified := insert (notificationKey t l) (notified st)\<rparr>)"
  proof
    assume "e = (task_id t, W)"
    with assms show ?thesis by (auto simp: abs_ledger_def key_by_id)
  next
    assume "e \<in> abs_ledger st"
    then show ?thesis by (auto simp: abs_ledger_def)
  qed
qed

lemma abs_task_due [simp]: "dueUtc t = DueAt due \<Longrightarrow> s_dueAt (abs_task t) = Some due"
  by (simp add: abs_task_def)

lemma abs_task_id [simp]: "s_id (abs_task t) = task_id t"
  by (simp add: abs_task_def)

lemma check_task_refines:
  "abs_state (check_task Granted ios now st t)
   = spec_tick_task (5 * 60) now (abs_state st) (abs_task t)"
proof (cases "dueUtc t")
  case (DueAt due)
  have m: "(due - now) div 60000 = minutesLeft due now"
    by (simp add: minutesLeft_def)
  have spec: "spec_tick_task (5 * 60) now S (abs_task t) =
      (if minutesLeft due now > 300
       then (spec_prune (fst S) (task_id t) (minutesLeft due now) 300, snd S)
       else foldl (spec_fire (task_id t) due (minutesLeft due now)) S spec_thresholds)" for S
    using DueAt by (simp add: spec_tick_task_def m Let_def)
  from DueAt show ?thesis
  proof (cases rule: check_task_cases [where now = now and p = Granted and ios = ios and st = st])
    case far
    from far show ?thesis unfolding spec
      by (simp add: abs_state_def abs_ledger_pruned spec_prune_def abs_dispatches_def)
  next
    case (at l)
    from level_has_threshold [OF at(1)] obtain W
      where W: "thresholdMinutes l = of_int W" "(W, label l) \<in> set spec_thresholds"
      by blast
    from at(2) W(1) have mW: "minutesLeft due now = W" by simp
    from level_threshold_int [OF at(1)] W(1) have "W \<le> 300" by auto
    with mW have near: "\<not> minutesLeft due now > 300" by simp
    have fold: "foldl (spec_fire (task_id t) due (minutesLeft due now)) S spec_thresholds
        = spec_fire (task_id t) due (minutesLeft due now) S (W, label l)" for S
      using foldl_spec_fire_one [OF distinct_spec_windows W(2), of "minutesLeft due now"] mW
      by simp
    show ?thesis
    proof (cases "notificationKey t l \<in> notified st")
      case True
      with abs_ledger_has [OF at(1) W(1), of t st]
      have "(task_id t, W) \<in> abs_ledger st" by simp
      with at(3) check_level_known [OF True] near show ?thesis unfolding spec fold
        by (simp add: abs_state_def spec_fire_def spec_shouldFire_def)
    next
      case False
      with abs_ledger_has [OF at(1) W(1), of t st]
      have out: "(task_id t, W) \<notin> abs_ledger st" by simp
      from at(3) check_level_hit [OF at(1,2) False]
      have st': "check_task Granted ios now st t = st\<lparr>shown := shown st @ [reminder ios t due l],
          notified := insert (notificationKey t l) (notified st)\<rparr>"
        by simp
      have d: "abs_dispatches (check_task Granted ios now st t)
          = abs_dispatches st @ [(task_id t, label l, due)]"
        unfolding st' by (simp add: abs_dispatches_def reminder_def)
      have led: "abs_ledger (check_task Granted ios now st t)
          = insert (task_id t, W) (abs_ledger st)"
        unfolding st' by (rule abs_ledger_recorded [OF at(1) W(1)])
      from out near mW d led show ?thesis unfolding spec fold
        by (simp add: abs_state_def spec_fire_def spec_shouldFire_def spec_record_def
            spec_in_window_eq)
    qed
  next
    case idle
    have "\<forall>th\<in>set spec_thresholds. fst th \<noteq> minutesLeft due now"
    proof
      fix th assume "th \<in> set spec_thresholds"
      from threshold_has_level [OF this] obtain l where l: "l \<in> set NOTIFICATION_LEVELS"
        "thresholdMinutes l = of_int (fst th)" by blast
      from idle(2) l show "fst th \<noteq> minutesLeft due now" by auto
    qed
    from foldl_spec_fire_none [OF this] idle(1,3) show ?thesis unfolding spec
      by (simp add: abs_state_def)
  qed
qed (simp_all add: check_task_def spec_tick_task_def abs_task_def)

text \<open>
  Claim C5. The source writes the firing loop before the clean-up; what a tick does to
  a task is nevertheless what the specification's prune-first tick does. Read as ledger
  entries and dispatches, the state after the step of the code for a task is the state
  that the tick of the specification with far cut-off \<open>5 * 60\<close> gives, for every task,
  instant and state. In the terms of the code: beyond 300 minutes left the keys of the
  task for all levels are removed and no notification is created; at 300 minutes or less
  nothing is removed, and a level in its window is checked against the ledger: its
  reminder is created and its key recorded when the key was not there, and the state is
  left as it was when the key was there.
\<close>

theorem check_task_refines_spec_tick:
  "abs_state (check_task Granted ios now st t)
     = spec_tick_task (5 * 60) now (abs_state st) (abs_task t) \<and>
   (dueUtc t = DueAt due \<longrightarrow>
     (minutesLeft due now > 5 * 60 \<longrightarrow>
        created_between st (check_task Granted ios now st t) = [] \<and>
        notified (check_task Granted ios now st t)
          = notified st - notificationKey t ` set NOTIFICATION_LEVELS) \<and>
     (minutesLeft due now \<le> 5 * 60 \<longrightarrow>
        notified st \<subseteq> notified (check_task Granted ios now st t) \<and>
        (\<forall>l\<in>set NOTIFICATION_LEVELS.
           thresholdMinutes l - 1 < of_int (minutesLeft due now) \<and>
           of_int (minutesLeft due now) \<le> thresholdMinutes l \<longrightarrow>
           (notificationKey t l \<notin> notified st \<longrightarrow>
              created_between st (check_task Granted ios now st t) = [reminder ios t due l] \<and>
              notificationKey t l \<in> notified (check_task Granted ios now st t)) \<and>
           (notificationKey t l \<in> notified st \<longrightarrow>
              check_task Granted ios now st t = st))))"
proof (intro conjI impI ballI)
  show "abs_state (check_task Granted ios now st t)
      = spec_tick_task (5 * 60) now (abs_state st) (abs_task t)"
    by (rule check_task_refines)
next
  assume d: "dueUtc t = DueAt due" and "5 * 60 < minutesLeft due now"
  then have far: "minutesLeft due now > 300" by simp
  note r = check_task_far [OF d far, of Granted ios st]
  show "created_between st (check_task Granted ios now st t) = []"
    unfolding r by simp
  show "notified (check_task Granted ios now st t)
      = notified st - notificationKey t ` set NOTIFICATION_LEVELS"
    unfolding r by simp
next
  assume d: "dueUtc t = DueAt due" and near: "minutesLeft due now \<le> 5 * 60"
  show "notified st \<subseteq> notified (check_task Granted ios now st t)"
    by (rule no_pruning_within_cutoff [OF d near])
  fix l
  assume l: "l \<in> set NOTIFICATION_LEVELS"
    and w: "thresholdMinutes l - 1 < of_int (minutesLeft due now) \<and>
      of_int (minutesLeft due now) \<le> thresholdMinutes l"
  from w in_window_iff [OF l, of "minutesLeft due now"]
  have eq: "of_int (minutesLeft due now) = thresholdMinutes l" by simp
  {
    assume fresh: "notificationKey t l \<notin> notified st"
    note r = step_in_window_fresh [OF l d eq fresh, of ios]
    show "created_between st (check_task Granted ios now st t) = [reminder ios t due l]"
      unfolding r by simp
    show "notificationKey t l \<in> notified (check_task Granted ios now st t)"
      unfolding r by simp
  }
  {
    assume known: "notificationKey t l \<in> notified st"
    from check_task_at [OF d l eq] check_level_known [OF known]
    show "check_task Granted ios now st t = st" by simp
  }
qed

theorem check_task_refines_spec_tick_witness:
  "abs_state (check_task Granted False 0 initial_state (sample_task ''t1'' (DueAt 1800000)))
     = ({(''t1'', 30)}, [(''t1'', ''30 minutes'', 1800000)]) \<and>
   spec_tick_task (5 * 60) 0 ({}, []) (abs_task (sample_task ''t1'' (DueAt 1800000)))
     = ({(''t1'', 30)}, [(''t1'', ''30 minutes'', 1800000)]) \<and>
   dueUtc (sample_task ''t1'' (DueAt 36000000)) = DueAt 36000000 \<and>
   minutesLeft 36000000 0 > 5 * 60 \<and>
   created_between \<lparr>notified = {''task-t1-0.5''}, shown = []\<rparr>
     (check_task Granted False 0 \<lparr>notified = {''task-t1-0.5''}, shown = []\<rparr>
       (sample_task ''t1'' (DueAt 36000000))) = [] \<and>
   notified (check_task Granted False 0 \<lparr>notified = {''task-t1-0.5''}, shown = []\<rparr>
       (sample_task ''t1'' (DueAt 36000000))) = {}"
proof -
  let ?near = "sample_task ''t1'' (DueAt 1800000)"
  let ?far = "sample_task ''t1'' (DueAt 36000000)"
  let ?st = "\<lparr>notified = {''task-t1-0.5''}, shown = []\<rparr>"
  have a0: "abs_state initial_state = ({}, [])"
    by (simp add: abs_state_def abs_ledger_def abs_dispatches_def initial_state_def)
  have sp: "spec_tick_task (5 * 60) 0 ({}, []) (abs_task ?near)
      = ({(''t1'', 30)}, [(''t1'', ''30 minutes'', 1800000)])"
    by (simp add: spec_tick_task_def abs_task_def sample_task_def spec_thresholds_def
        spec_fire_def spec_in_window_def spec_shouldFire_def spec_record_def)
  from check_task_refines_spec_tick [of False 0 initial_state ?near] a0 sp
  have near: "abs_state (check_task Granted False 0 initial_state ?near)
      = ({(''t1'', 30)}, [(''t1'', ''30 minutes'', 1800000)])"
    by simp
  have d: "dueUtc ?far = DueAt 36000000"
    by (simp add: sample_task_def)
  have m: "minutesLeft 36000000 0 > 5 * 60"
    by (simp add: minutesLeft_def)
  have k: "notified ?st - notificationKey ?far ` set NOTIFICATION_LEVELS = {}"
    by (simp add: NOTIFICATION_LEVELS_def notificationKey_def sample_task_def)
  from check_task_refines_spec_tick [of False 0 ?st ?far 36000000] d m k
  have far: "created_between ?st (check_task Granted False 0 ?st ?far) = []"
    "notified (check_task Granted False 0 ?st ?far) = {}"
    by simp_all
  from near sp d m far show ?thesis by blast
qed

end
